theory Spec2Isabelle
  imports Complex_Main "HOL-Library.Sublist" "HOL-Library.Monad_Syntax"
begin

section \<open>Values on the wire\<close>

text \<open>
  A parsed JSON value, as \<^verbatim>\<open>express.json()\<close> hands it to a handler. A number is the
  value of the parsed double (every finite double is a rational); an object is the list of
  its own properties in insertion order, looked up by the first entry for a key.
\<close>

datatype json =
    JNull
  | JBool bool
  | JNum rat
  | JStr string
  | JArr "json list"
  | JObj "(string \<times> json) list"

text \<open>JavaScript truthiness of a parsed value (\<^verbatim>\<open>!payload\<close> is its negation).\<close>

fun truthy :: "json \<Rightarrow> bool" where
  "truthy JNull = False"
| "truthy (JBool b) = b"
| "truthy (JNum r) = (r \<noteq> 0)"
| "truthy (JStr s) = (s \<noteq> [])"
| "truthy (JArr xs) = True"
| "truthy (JObj kvs) = True"

text \<open>
  \<^verbatim>\<open>Map.prototype.set\<close> and property assignment on an insertion-ordered container: an
  existing key keeps its position and takes the new value, a new key goes to the end.
\<close>

fun assoc_set :: "'k \<Rightarrow> 'v \<Rightarrow> ('k \<times> 'v) list \<Rightarrow> ('k \<times> 'v) list" where
  "assoc_set k v [] = [(k, v)]"
| "assoc_set k v ((k', v') # kvs) =
     (if k' = k then (k, v) # kvs else (k', v') # assoc_set k v kvs)"

text \<open>Decimal rendering of a non-negative integer, as a template literal prints it.\<close>

fun string_of_nat :: "nat \<Rightarrow> string" where
  "string_of_nat n =
     (if n < 10 then [''0123456789'' ! n]
      else string_of_nat (n div 10) @ [''0123456789'' ! (n mod 10)])"

declare string_of_nat.simps [simp del]

definition string_of_int :: "int \<Rightarrow> string" where
  "string_of_int i =
     (if i < 0 then CHR ''-'' # string_of_nat (nat (- i)) else string_of_nat (nat i))"

section \<open>Data model\<close>

text \<open>A validated event: the \<^verbatim>\<open>value\<close> that \<^verbatim>\<open>eventSchema.validate\<close> returns.\<close>

record event =
  eventId :: string
  ts :: int
  userId :: string
  sessionId :: string
  route :: string
  action :: string
  metadata :: "(string \<times> json) list"

text \<open>
  An in-memory bucket \<^verbatim>\<open>{ count, uniques: Set, routes: Map, errors }\<close>. The Set and the
  Map are insertion ordered: \<open>uniques\<close> lists the stored user ids in the order they were
  added, \<open>routes\<close> lists the entries of the Map in the order the routes were first set.
\<close>

record entry =
  count :: nat
  uniques :: "string list"
  routes :: "(string \<times> nat) list"
  errors :: nat

definition new_entry :: entry where
  "new_entry = \<lparr>count = 0, uniques = [], routes = [], errors = 0\<rparr>"

text \<open>The object \<^verbatim>\<open>serializeEntry\<close> returns.\<close>

record serialized =
  s_count :: nat
  s_uniques :: nat
  s_routes :: "(string \<times> nat) list"
  s_errors :: nat

definition WINDOW_SIZES :: "int list" where
  "WINDOW_SIZES = [1, 5, 60]"

text \<open>
  \<^verbatim>\<open>Math.floor(tsMs / bucketMs) * bucketMs\<close>. On integers \<open>div\<close> is the floor of the
  quotient; lemma \<open>getBucketStart_floor\<close> below restates it with the real quotient.
\<close>

definition getBucketStart :: "int \<Rightarrow> int \<Rightarrow> int" where
  "getBucketStart tsMs windowSec =
     (let bucketMs = windowSec * 1000 in (tsMs div bucketMs) * bucketMs)"

section \<open>Aggregation\<close>

text \<open>\<^verbatim>\<open>Set.prototype.add\<close>.\<close>

definition set_add :: "'a \<Rightarrow> 'a list \<Rightarrow> 'a list" where
  "set_add x xs = (if x \<in> set xs then xs else xs @ [x])"

text \<open>\<^verbatim>\<open>entry.routes.get(r) || 0\<close>.\<close>

definition routes_get :: "(string \<times> nat) list \<Rightarrow> string \<Rightarrow> nat" where
  "routes_get rs r = (case map_of rs r of None \<Rightarrow> 0 | Some n \<Rightarrow> n)"

text \<open>The body of the loop \<^verbatim>\<open>for (const ev of events)\<close> in \<^verbatim>\<open>handleEvents\<close>.\<close>

definition add_event :: "entry \<Rightarrow> event \<Rightarrow> entry" where
  "add_event e ev =
     (let e1 = e\<lparr>count := count e + 1\<rparr>;
          e2 = (if userId ev \<noteq> [] then e1\<lparr>uniques := set_add (userId ev) (uniques e1)\<rparr> else e1);
          r = routes_get (routes e2) (route ev);
          e3 = e2\<lparr>routes := assoc_set (route ev) (r + 1) (routes e2)\<rparr>
      in if action ev = ''error'' then e3\<lparr>errors := errors e3 + 1\<rparr> else e3)"

text \<open>
  \<^verbatim>\<open>Array.prototype.sort((a,b) => b[1] - a[1])\<close>: a stable sort (ECMAScript 2019, Node 11
  and later) by descending count, here as a stable insertion sort.
\<close>

fun insert_desc :: "string \<times> nat \<Rightarrow> (string \<times> nat) list \<Rightarrow> (string \<times> nat) list" where
  "insert_desc x [] = [x]"
| "insert_desc x (y # ys) = (if snd y \<le> snd x then x # y # ys else y # insert_desc x ys)"

definition sort_desc :: "(string \<times> nat) list \<Rightarrow> (string \<times> nat) list" where
  "sort_desc xs = foldr insert_desc xs []"

definition serializeEntry :: "entry \<Rightarrow> serialized" where
  "serializeEntry e =
     \<lparr>s_count = count e,
      s_uniques = length (uniques e),
      s_routes = take 10 (sort_desc (routes e)),
      s_errors = errors e\<rparr>"

section \<open>Persistence\<close>

text \<open>
  The two MongoDB collections. \<open>eventsCol\<close> (\<^verbatim>\<open>raw_events\<close>) is the list of its
  documents. \<open>aggCol\<close> (\<^verbatim>\<open>aggregates\<close>) is read and written only through the filter
  \<^verbatim>\<open>{ window, bucketStart }\<close>, so it is a map from that pair to the rest of the document.
  Each collection has its indexes, listed by name. The operations on them are those of
  MongoDB, as its manual documents them.
\<close>

text \<open>An index: the fields of its key pattern and the two options the server sets.\<close>

record index_spec =
  key_fields :: "string list"
  expireAfterSeconds :: "nat option"
  unique :: bool

text \<open>
  \<^verbatim>\<open>createIndex(keys, { name, ... })\<close>, \<open>None\<close> where it is refused. Asking again for an
  index that exists is accepted and changes nothing. A name taken by a different index is
  refused, and so is a key pattern that is indexed under another name, and a unique index
  over a collection that holds a value twice (\<open>duplicates\<close>).
\<close>

definition createIndex ::
  "string \<Rightarrow> index_spec \<Rightarrow> bool \<Rightarrow> (string \<times> index_spec) list \<Rightarrow> (string \<times> index_spec) list option" where
  "createIndex name spec duplicates idx =
     (case map_of idx name of
        Some i \<Rightarrow> if i = spec then Some idx else None
      | None \<Rightarrow>
          if list_ex (\<lambda>(n, i). key_fields i = key_fields spec) idx then None
          else if unique spec \<and> duplicates then None
          else Some (idx @ [(name, spec)]))"

text \<open>\<^verbatim>\<open>dropIndex(name)\<close>, \<open>None\<close> where there is no such index.\<close>

definition dropIndex :: "string \<Rightarrow> (string \<times> index_spec) list \<Rightarrow> (string \<times> index_spec) list option" where
  "dropIndex name idx =
     (if name \<in> fst ` set idx then Some (filter (\<lambda>(n, i). n \<noteq> name) idx) else None)"

record agg_doc =
  agg_count :: nat
  agg_errors :: nat
  createdAt :: int

text \<open>
  One document of \<^verbatim>\<open>insertMany(events, { ordered: false })\<close>. When the collection has a
  unique index over \<^verbatim>\<open>eventId\<close> (\<open>uniq\<close>), a document whose \<^verbatim>\<open>eventId\<close> is already
  stored is refused, and the others of the batch are still inserted. Without such an index
  every document is inserted.
\<close>

definition insert_doc :: "bool \<Rightarrow> event list \<Rightarrow> event \<Rightarrow> event list" where
  "insert_doc uniq col d =
     (if uniq \<and> eventId d \<in> eventId ` set col then col else col @ [d])"

definition insertMany :: "bool \<Rightarrow> event list \<Rightarrow> event list \<Rightarrow> event list" where
  "insertMany uniq docs col = foldl (insert_doc uniq) col docs"

text \<open>
  \<^verbatim>\<open>updateOne({ window: w, bucketStart }, { $set: ..., $inc: { count: n, errors: k },
  $setOnInsert: { createdAt: new Date(bucketStart) } }, { upsert: true })\<close>.
\<close>

definition updateOne_upsert ::
  "int \<Rightarrow> int \<Rightarrow> nat \<Rightarrow> nat \<Rightarrow> (int \<times> int \<rightharpoonup> agg_doc) \<Rightarrow> (int \<times> int \<rightharpoonup> agg_doc)" where
  "updateOne_upsert w bucketStart n k col =
     col((w, bucketStart) \<mapsto>
       (case col (w, bucketStart) of
          None \<Rightarrow> \<lparr>agg_count = n, agg_errors = k, createdAt = bucketStart\<rparr>
        | Some d \<Rightarrow> d\<lparr>agg_count := agg_count d + n, agg_errors := agg_errors d + k\<rparr>))"

section \<open>Server state and the outside world\<close>

datatype frame =
    agg_snapshot "(string \<times> serialized) list"
  | agg_delta "(string \<times> serialized) list"

text \<open>What \<^verbatim>\<open>broadcast\<close> reads of a socket.\<close>

record ws_sock =
  readyState_OPEN :: bool
  bufferedAmount :: nat

text \<open>
  What the outside world does during one call: whether the driver rejects the
  \<^verbatim>\<open>insertMany\<close> as a whole (the collection is then left as it was), whether it rejects
  the \<^verbatim>\<open>updateOne\<close> of a window, and the state of each socket when it is looked at.
\<close>

record io =
  insertMany_fails :: bool
  updateOne_fails :: "int \<Rightarrow> bool"
  socket :: "nat \<Rightarrow> ws_sock"

text \<open>The attributes the connection handler hangs on a socket.\<close>

record ws_session =
  user :: string
  subscriptions :: "string list"

text \<open>
  The module's mutable state and the database behind it. \<open>memoryWindows\<close> holds one
  bucket map per window size; the keys are set once at start-up (line 49) and never
  change, so it is a total function of the window size. \<open>eventsIdx\<close> and \<open>aggIdx\<close> are
  the indexes of the two collections. \<open>sessions\<close> are the sockets that passed
  authentication and have their handlers registered; \<open>wire\<close> lists the calls of
  \<^verbatim>\<open>ws.send\<close>, oldest first.
\<close>

record server =
  memoryWindows :: "int \<Rightarrow> (int \<rightharpoonup> entry)"
  eventsCol :: "event list"
  eventsIdx :: "(string \<times> index_spec) list"
  aggCol :: "int \<times> int \<rightharpoonup> agg_doc"
  aggIdx :: "(string \<times> index_spec) list"
  topicToSockets :: "string \<rightharpoonup> nat list"
  sessions :: "nat \<rightharpoonup> ws_session"
  wire :: "(nat \<times> frame) list"

definition init_server :: server where
  "init_server =
     \<lparr>memoryWindows = (\<lambda>w. Map.empty), eventsCol = [], eventsIdx = [], aggCol = Map.empty,
      aggIdx = [], topicToSockets = Map.empty, sessions = Map.empty, wire = []\<rparr>"

datatype error = PersistenceError | TypeError

section \<open>Start-up\<close>

text \<open>
  What the database does during \<^verbatim>\<open>ensureIndexes\<close>: whether it rejects the listing of the
  indexes, the drop, and the creation of the index of a given name, whatever the state of
  the collection (a lost connection, say).
\<close>

record boot_io =
  indexes_fails :: bool
  dropIndex_fails :: bool
  createIndex_fails :: "string \<Rightarrow> bool"

text \<open>\<^verbatim>\<open>try { await col.createIndex(keys, { name, ... }) } catch {}\<close>.\<close>

definition try_createIndex ::
  "boot_io \<Rightarrow> string \<Rightarrow> index_spec \<Rightarrow> bool \<Rightarrow> (string \<times> index_spec) list \<Rightarrow> (string \<times> index_spec) list" where
  "try_createIndex b name spec duplicates idx =
     (if createIndex_fails b name then idx
      else case createIndex name spec duplicates idx of None \<Rightarrow> idx | Some idx' \<Rightarrow> idx')"

text \<open>\<^verbatim>\<open>try { await eventsCol.dropIndex('ts_1') } catch {}\<close>.\<close>

definition try_dropIndex :: "boot_io \<Rightarrow> string \<Rightarrow> (string \<times> index_spec) list \<Rightarrow> (string \<times> index_spec) list" where
  "try_dropIndex b name idx =
     (if dropIndex_fails b then idx
      else case dropIndex name idx of None \<Rightarrow> idx | Some idx' \<Rightarrow> idx')"

text \<open>
  \<^verbatim>\<open>ensureIndexes\<close>, with the value of \<^verbatim>\<open>RAW_EVENTS_TTL_DAYS\<close>. Only the listing of the
  indexes stands outside a \<^verbatim>\<open>try\<close>: \<open>Inl\<close> is its rejection, which ends the start-up.
  Every other failure is swallowed, that of the unique index over \<^verbatim>\<open>eventId\<close> included.
\<close>

definition ensureIndexes :: "boot_io \<Rightarrow> nat \<Rightarrow> server \<Rightarrow> error + server" where
  "ensureIndexes b RAW_EVENTS_TTL_DAYS s =
     (if indexes_fails b then Inl PersistenceError
      else
        let ttlSeconds = RAW_EVENTS_TTL_DAYS * 86400;
            existing = eventsIdx s;
            i0 = (case map_of existing ''ts_1'' of
                    None \<Rightarrow> existing
                  | Some tsExisting \<Rightarrow>
                      if expireAfterSeconds tsExisting \<noteq> Some ttlSeconds
                      then try_dropIndex b ''ts_1'' existing else existing);
            i1 = try_createIndex b ''ts_1''
                   \<lparr>key_fields = [''ts''], expireAfterSeconds = Some ttlSeconds, unique = False\<rparr>
                   False i0;
            i2 = try_createIndex b ''sessionId_1''
                   \<lparr>key_fields = [''sessionId''], expireAfterSeconds = None, unique = False\<rparr>
                   False i1;
            i3 = try_createIndex b ''userId_1''
                   \<lparr>key_fields = [''userId''], expireAfterSeconds = None, unique = False\<rparr>
                   False i2;
            i4 = try_createIndex b ''route_1''
                   \<lparr>key_fields = [''route''], expireAfterSeconds = None, unique = False\<rparr>
                   False i3;
            i5 = try_createIndex b ''eventId_1''
                   \<lparr>key_fields = [''eventId''], expireAfterSeconds = None, unique = True\<rparr>
                   (\<not> distinct (map eventId (eventsCol s))) i4;
            a1 = try_createIndex b ''window_bucketStart_1''
                   \<lparr>key_fields = [''window'', ''bucketStart''], expireAfterSeconds = None,
                    unique = False\<rparr>
                   False (aggIdx s)
        in Inr (s\<lparr>eventsIdx := i5, aggIdx := a1\<rparr>))"

text \<open>The collection of raw events enforces distinct ids: an index over \<^verbatim>\<open>eventId\<close> alone
  is unique.\<close>

definition eventId_unique :: "server \<Rightarrow> bool" where
  "eventId_unique s = list_ex (\<lambda>(n, i). unique i \<and> key_fields i = [''eventId'']) (eventsIdx s)"

section \<open>Topic registry\<close>

definition subscribe :: "nat \<Rightarrow> string \<Rightarrow> server \<Rightarrow> server" where
  "subscribe ws topic s =
     (let sockets = (case topicToSockets s topic of None \<Rightarrow> [] | Some l \<Rightarrow> l)
      in s\<lparr>topicToSockets := (topicToSockets s)(topic \<mapsto> set_add ws sockets),
            sessions := (case sessions s ws of
                           None \<Rightarrow> sessions s
                         | Some c \<Rightarrow> (sessions s)(ws \<mapsto> c\<lparr>subscriptions := set_add topic (subscriptions c)\<rparr>))\<rparr>)"

definition sendJson :: "nat \<Rightarrow> frame \<Rightarrow> server \<Rightarrow> server" where
  "sendJson ws f s = s\<lparr>wire := wire s @ [(ws, f)]\<rparr>"

definition can_send :: "ws_sock \<Rightarrow> bool" where
  "can_send k = (readyState_OPEN k \<and> bufferedAmount k < 1000000)"

definition broadcast :: "(nat \<Rightarrow> ws_sock) \<Rightarrow> string \<Rightarrow> frame \<Rightarrow> server \<Rightarrow> server" where
  "broadcast sock topic payload s =
     (case topicToSockets s topic of
        None \<Rightarrow> s
      | Some l \<Rightarrow> foldl (\<lambda>s' ws. if can_send (sock ws) then sendJson ws payload s' else s') s l)"

section \<open>Ingestion\<close>

definition window_key :: "int \<Rightarrow> string" where
  "window_key w = string_of_int w @ ''s''"

text \<open>
  The loop \<^verbatim>\<open>for (const w of WINDOW_SIZES)\<close> of \<^verbatim>\<open>handleEvents\<close>. The bucket of the
  window is updated in memory and serialized before its \<^verbatim>\<open>updateOne\<close> is awaited; that
  call stands outside any \<^verbatim>\<open>try\<close>, so its rejection leaves the loop and the function.
\<close>

fun windows_loop ::
  "io \<Rightarrow> int \<Rightarrow> event list \<Rightarrow> int list \<Rightarrow> (string \<times> serialized) list \<Rightarrow> server
     \<Rightarrow> (error + (string \<times> serialized) list) \<times> server" where
  "windows_loop w_io now events [] deltas s = (Inr deltas, s)"
| "windows_loop w_io now events (w # ws) deltas s =
     (let m = memoryWindows s w;
          bucketStart = getBucketStart now w;
          e = (case m bucketStart of None \<Rightarrow> new_entry | Some e0 \<Rightarrow> e0);
          e' = foldl add_event e events;
          s1 = s\<lparr>memoryWindows := (memoryWindows s)(w := m(bucketStart \<mapsto> e'))\<rparr>;
          deltas' = assoc_set (window_key w) (serializeEntry e') deltas
      in if updateOne_fails w_io w then (Inl PersistenceError, s1)
         else windows_loop w_io now events ws deltas'
                (s1\<lparr>aggCol := updateOne_upsert w bucketStart (length events)
                                  (length (filter (\<lambda>ev. action ev = ''error'') events)) (aggCol s1)\<rparr>))"

text \<open>
  \<^verbatim>\<open>handleEvents\<close> at receipt time \<open>now\<close> (the value of \<^verbatim>\<open>Date.now()\<close>). \<open>Inl\<close> is the
  exception the returned promise is rejected with. A call is taken from its first
  statement to its last: what other handlers do while it awaits the database is not part
  of the model.
\<close>

definition handleEvents :: "io \<Rightarrow> int \<Rightarrow> event list \<Rightarrow> server \<Rightarrow> (error + unit) \<times> server" where
  "handleEvents w_io now events s =
     (if events = [] then (Inr (), s)
      else
        let s1 = (if insertMany_fails w_io then s
                  else s\<lparr>eventsCol := insertMany (eventId_unique s) events (eventsCol s)\<rparr>)
        in case windows_loop w_io now events WINDOW_SIZES [] s1 of
             (Inl err, s2) \<Rightarrow> (Inl err, s2)
           | (Inr deltas, s2) \<Rightarrow>
               (Inr (), broadcast (socket w_io) ''dashboard:global'' (agg_delta deltas) s2))"

fun snapshot_loop :: "int \<Rightarrow> int list \<Rightarrow> (string \<times> serialized) list \<Rightarrow> server
     \<Rightarrow> (string \<times> serialized) list" where
  "snapshot_loop now [] result s = result"
| "snapshot_loop now (w # ws) result s =
     (let bucketStart = getBucketStart now w;
          e = (case memoryWindows s w bucketStart of None \<Rightarrow> new_entry | Some e0 \<Rightarrow> e0)
      in snapshot_loop now ws (assoc_set (window_key w) (serializeEntry e) result) s)"

definition latestAggregatesSnapshot :: "int \<Rightarrow> server \<Rightarrow> (string \<times> serialized) list" where
  "latestAggregatesSnapshot now s = snapshot_loop now WINDOW_SIZES [] s"

text \<open>The body of the \<^verbatim>\<open>setInterval\<close> callback that evicts old buckets.\<close>

fun janitor_loop :: "int \<Rightarrow> int list \<Rightarrow> server \<Rightarrow> server" where
  "janitor_loop now [] s = s"
| "janitor_loop now (w # ws) s =
     janitor_loop now ws
       (s\<lparr>memoryWindows := (memoryWindows s)
            (w := (\<lambda>bucketStart. if bucketStart < now - w * 1000 * 5 then None
                                 else memoryWindows s w bucketStart))\<rparr>)"

definition janitor :: "int \<Rightarrow> server \<Rightarrow> server" where
  "janitor now s = janitor_loop now WINDOW_SIZES s"

text \<open>A run of the aggregator: calls of \<^verbatim>\<open>handleEvents\<close> and ticks of the janitor.\<close>

datatype call = Ingest io int "event list" | Janitor int

fun step :: "server \<Rightarrow> call \<Rightarrow> server" where
  "step s (Ingest w_io now events) = snd (handleEvents w_io now events s)"
| "step s (Janitor now) = janitor now s"

definition run :: "call list \<Rightarrow> server \<Rightarrow> server" where
  "run calls s = foldl step s calls"

section \<open>Event validation\<close>

text \<open>
  The schema is built from rules of the Joi library. Its rules are modelled as the library
  documents them, under Joi's default preferences (values are converted, unknown keys are
  refused). Two conversions parse text and are taken as parameters: the conversion of a
  string to a number (\<open>None\<close> when the string is not a number the rule accepts) and of a
  string to an object (\<open>None\<close> when it is not the JSON text of an object).
\<close>

record joi_convert =
  number_of_string :: "string \<Rightarrow> rat option"
  object_of_string :: "string \<Rightarrow> (string \<times> json) list option"

text \<open>
  \<^verbatim>\<open>Joi.string().guid({ version: 'uuidv4' })\<close> tests the value against the pattern
  \<^verbatim>\<open>^([\[{\(]?)[0-9A-F]{8}([:-]?)[0-9A-F]{4}\2?[4][0-9A-F]{3}\2?[89AB][0-9A-F]{3}\2?[0-9A-F]{12}([\]}\)]?)$\<close>
  without regard to case, and then requires the closing bracket to be the partner of the
  opening one. No optional part of the pattern can be followed by a character of its own
  class, so the pattern is matched from left to right without backtracking.
\<close>

definition is_hex :: "char \<Rightarrow> bool" where
  "is_hex c = (c \<in> set ''0123456789abcdefABCDEF'')"

text \<open>\<^verbatim>\<open>[0-9A-F]{n}\<close>: the rest of the string after \<open>n\<close> hexadecimal digits.\<close>

definition hexes :: "nat \<Rightarrow> string \<Rightarrow> string option" where
  "hexes n v = (if n \<le> length v \<and> list_all is_hex (take n v) then Some (drop n v) else None)"

text \<open>One character of a class: the rest of the string.\<close>

definition one_of :: "string \<Rightarrow> string \<Rightarrow> string option" where
  "one_of cls v = (case v of [] \<Rightarrow> None | c # r \<Rightarrow> if c \<in> set cls then Some r else None)"

text \<open>An optional character of a class: what was matched, and the rest.\<close>

definition opt_one_of :: "string \<Rightarrow> string \<Rightarrow> string \<times> string" where
  "opt_one_of cls v = (case v of [] \<Rightarrow> ([], []) | c # r \<Rightarrow> if c \<in> set cls then ([c], r) else ([], v))"

text \<open>\<^verbatim>\<open>\2?\<close>: the separator matched before, once more or not at all.\<close>

definition opt_same :: "string \<Rightarrow> string \<Rightarrow> string" where
  "opt_same sep v = (if sep \<noteq> [] \<and> prefix sep v then drop (length sep) v else v)"

definition guidBrackets :: "string \<Rightarrow> string" where
  "guidBrackets b =
     (if b = ''{'' then ''}'' else if b = ''['' then '']'' else if b = ''('' then '')'' else [])"

definition joi_guid_uuidv4 :: "string \<Rightarrow> bool" where
  "joi_guid_uuidv4 v =
     (let (br, v1) = opt_one_of ''[{('' v in
      case hexes 8 v1 of None \<Rightarrow> False | Some v2 \<Rightarrow>
      let (sep, v3) = opt_one_of '':-'' v2 in
      case hexes 4 v3 of None \<Rightarrow> False | Some v4 \<Rightarrow>
      case one_of ''4'' (opt_same sep v4) of None \<Rightarrow> False | Some v5 \<Rightarrow>
      case hexes 3 v5 of None \<Rightarrow> False | Some v6 \<Rightarrow>
      case one_of ''89ABab'' (opt_same sep v6) of None \<Rightarrow> False | Some v7 \<Rightarrow>
      case hexes 3 v7 of None \<Rightarrow> False | Some v8 \<Rightarrow>
      case hexes 12 (opt_same sep v8) of None \<Rightarrow> False | Some v9 \<Rightarrow>
        v9 \<in> set [[], '']'', ''}'', '')''] \<and> guidBrackets br = v9)"

text \<open>
  \<^verbatim>\<open>Joi.string().required()\<close>, with \<^verbatim>\<open>.allow('')\<close> when \<open>allow_empty\<close>: the value must be
  present and a string, and the empty string is refused unless allowed.
\<close>

definition joi_string :: "bool \<Rightarrow> json option \<Rightarrow> string option" where
  "joi_string allow_empty v =
     (case v of
        Some (JStr x) \<Rightarrow> if x = [] \<and> \<not> allow_empty then None else Some x
      | _ \<Rightarrow> None)"

definition joi_string_guid :: "json option \<Rightarrow> string option" where
  "joi_string_guid v =
     (case joi_string False v of
        None \<Rightarrow> None
      | Some x \<Rightarrow> if joi_guid_uuidv4 x then Some x else None)"

definition MAX_SAFE_INTEGER :: rat where
  "MAX_SAFE_INTEGER = 9007199254740991"

text \<open>
  \<^verbatim>\<open>Joi.number().integer().min(0).required()\<close>: a number, or a string that converts to one,
  that is integral, not negative and within the safe range.
\<close>

definition joi_number_integer_min0 :: "joi_convert \<Rightarrow> json option \<Rightarrow> int option" where
  "joi_number_integer_min0 cv v =
     (case (case v of
              Some (JNum r) \<Rightarrow> Some r
            | Some (JStr x) \<Rightarrow> number_of_string cv x
            | _ \<Rightarrow> None) of
        None \<Rightarrow> None
      | Some r \<Rightarrow>
          if of_int \<lfloor>r\<rfloor> = r \<and> 0 \<le> r \<and> r \<le> MAX_SAFE_INTEGER then Some \<lfloor>r\<rfloor> else None)"

text \<open>
  \<^verbatim>\<open>Joi.object().unknown(true).default({})\<close>: an object that is neither \<^verbatim>\<open>null\<close> nor an
  array, or a string that converts to one; the default when the key is absent.
\<close>

definition joi_object_unknown :: "joi_convert \<Rightarrow> json option \<Rightarrow> (string \<times> json) list option" where
  "joi_object_unknown cv v =
     (case v of
        None \<Rightarrow> Some []
      | Some (JObj kvs) \<Rightarrow> Some kvs
      | Some (JStr x) \<Rightarrow> object_of_string cv x
      | _ \<Rightarrow> None)"

text \<open>
  Before it reads the keys, Joi's object rule copies the value into a new object with
  \<^verbatim>\<open>Object.assign\<close>. An own property named \<^verbatim>\<open>__proto__\<close> does not arrive there as a
  property: assigning it sets the prototype of the copy when its value is an object, and
  does nothing otherwise. \<open>clone_own\<close> are the properties of the copy; \<open>clone_get\<close> reads
  a key of the copy, from that prototype when the copy has no such property (an array as
  prototype has none of the keys the schema names).
\<close>

definition clone_own :: "(string \<times> json) list \<Rightarrow> (string \<times> json) list" where
  "clone_own obj = filter (\<lambda>(k, v). k \<noteq> ''__proto__'') obj"

definition clone_get :: "(string \<times> json) list \<Rightarrow> string \<Rightarrow> json option" where
  "clone_get obj k =
     (case map_of (clone_own obj) k of
        Some v \<Rightarrow> Some v
      | None \<Rightarrow> (case map_of obj ''__proto__'' of Some (JObj p) \<Rightarrow> map_of p k | _ \<Rightarrow> None))"

definition eventSchema_keys :: "string list" where
  "eventSchema_keys =
     [''eventId'', ''ts'', ''userId'', ''sessionId'', ''route'', ''action'', ''metadata'']"

text \<open>
  \<^verbatim>\<open>eventSchema.validate(obj)\<close>: \<open>None\<close> when it reports an error, the validated value
  otherwise. Every key must pass its rule, and a property of the copy that the schema does
  not name is an error.
\<close>

definition eventSchema_validate :: "joi_convert \<Rightarrow> (string \<times> json) list \<Rightarrow> event option" where
  "eventSchema_validate cv obj =
     (if \<not> list_all (\<lambda>k. k \<in> set eventSchema_keys) (map fst (clone_own obj)) then None
      else do {
        i \<leftarrow> joi_string_guid (clone_get obj ''eventId'');
        t \<leftarrow> joi_number_integer_min0 cv (clone_get obj ''ts'');
        u \<leftarrow> joi_string True (clone_get obj ''userId'');
        se \<leftarrow> joi_string False (clone_get obj ''sessionId'');
        r \<leftarrow> joi_string False (clone_get obj ''route'');
        a \<leftarrow> joi_string False (clone_get obj ''action'');
        m \<leftarrow> joi_object_unknown cv (clone_get obj ''metadata'');
        Some \<lparr>eventId = i, ts = t, userId = u, sessionId = se, route = r, action = a,
              metadata = m\<rparr>
      })"

text \<open>
  The own enumerable properties an object spread \<^verbatim>\<open>{ ...e }\<close> copies: those of an
  object, the indexed elements of an array or of a string, none of any other value.
\<close>

fun spread :: "json \<Rightarrow> (string \<times> json) list" where
  "spread (JObj kvs) = kvs"
| "spread (JArr xs) = map (\<lambda>(i, x). (string_of_nat i, x)) (enumerate 0 xs)"
| "spread (JStr x) = map (\<lambda>(i, c). (string_of_nat i, JStr [c])) (enumerate 0 x)"
| "spread JNull = []"
| "spread (JBool b) = []"
| "spread (JNum r) = []"

text \<open>\<^verbatim>\<open>{ metadata: {}, ...e }\<close>.\<close>

definition withDefaults :: "json \<Rightarrow> (string \<times> json) list" where
  "withDefaults e = foldl (\<lambda>obj (k, v). assoc_set k v obj) [(''metadata'', JObj [])] (spread e)"

text \<open>The validation loop shared by both transports; \<open>valid\<close> is the array it pushes to.\<close>

fun validate_loop :: "joi_convert \<Rightarrow> json list \<Rightarrow> event list \<Rightarrow> event list" where
  "validate_loop cv [] valid = valid"
| "validate_loop cv (e # es) valid =
     (case eventSchema_validate cv (withDefaults e) of
        None \<Rightarrow> validate_loop cv es valid
      | Some v \<Rightarrow> validate_loop cv es (valid @ [v]))"

section \<open>Authentication\<close>

text \<open>
  The claims \<^verbatim>\<open>jwt.verify\<close> returns, and the two functions of the jsonwebtoken library
  the server calls. Both are parameters. \<open>jwt_verify lib token secret\<close> is \<open>None\<close> where
  the library throws (malformed token, bad signature, expired); signing takes the
  payload, the secret and the \<^verbatim>\<open>expiresIn\<close> option.
\<close>

record jwt_payload =
  sub :: "string option"

record jwt_lib =
  jwt_sign :: "jwt_payload \<Rightarrow> string \<Rightarrow> string \<Rightarrow> string"
  jwt_verify :: "string \<Rightarrow> string \<Rightarrow> jwt_payload option"

text \<open>\<^verbatim>\<open>process.env.JWT_SECRET || 'change_me'\<close>, from the value of the variable.\<close>

definition JWT_SECRET :: "string option \<Rightarrow> string" where
  "JWT_SECRET var = (case var of None \<Rightarrow> ''change_me'' | Some x \<Rightarrow> if x = [] then ''change_me'' else x)"

text \<open>A response: the status and the JSON body.\<close>

type_synonym response = "nat \<times> json"

text \<open>\<^verbatim>\<open>GET /token\<close>, from \<^verbatim>\<open>req.query.userId\<close>.\<close>

definition get_token :: "jwt_lib \<Rightarrow> string option \<Rightarrow> string option \<Rightarrow> response" where
  "get_token lib var query_userId =
     (let uid = (case query_userId of None \<Rightarrow> ''demo-user'' | Some x \<Rightarrow> if x = [] then ''demo-user'' else x);
          token = jwt_sign lib \<lparr>sub = Some uid\<rparr> (JWT_SECRET var) ''12h''
      in (200, JObj [(''token'', JStr token)]))"

text \<open>
  The middleware \<^verbatim>\<open>authHttp\<close>, from \<^verbatim>\<open>req.headers.authorization\<close>: it answers itself
  (\<open>Inl\<close>) or calls \<^verbatim>\<open>next()\<close> with \<^verbatim>\<open>req.user\<close> set (\<open>Inr\<close>).
\<close>

definition authHttp :: "jwt_lib \<Rightarrow> string option \<Rightarrow> string option \<Rightarrow> response + jwt_payload" where
  "authHttp lib var authorization =
     (let auth = (case authorization of None \<Rightarrow> [] | Some a \<Rightarrow> a);
          token = (if prefix ''Bearer '' auth then Some (drop 7 auth) else None)
      in case token of
           None \<Rightarrow> Inl (401, JObj [(''error'', JStr ''missing token'')])
         | Some t \<Rightarrow>
             if t = [] then Inl (401, JObj [(''error'', JStr ''missing token'')])
             else (case jwt_verify lib t (JWT_SECRET var) of
                     None \<Rightarrow> Inl (401, JObj [(''error'', JStr ''invalid token'')])
                   | Some decoded \<Rightarrow> Inr decoded))"

text \<open>
  The upgrade request as \<^verbatim>\<open>authWsFromReq\<close> reads it: the \<^verbatim>\<open>authorization\<close> header, and
  what \<^verbatim>\<open>new URL(req.url, 'http://localhost').searchParams.get('token')\<close> gives
  (\<open>None\<close> when there is no URL, when it does not parse, or when it has no such parameter).
\<close>

record ws_req =
  ws_authorization :: "string option"
  url_token :: "string option"

definition authWsFromReq :: "jwt_lib \<Rightarrow> string option \<Rightarrow> ws_req \<Rightarrow> jwt_payload option" where
  "authWsFromReq lib var req =
     (let token = (case ws_authorization req of
                     None \<Rightarrow> None
                   | Some auth \<Rightarrow>
                       if auth = [] then None
                       else Some (if prefix ''Bearer '' auth then drop 7 auth else auth));
          token' = (if token = None \<or> token = Some [] then url_token req else token)
      in case token' of
           None \<Rightarrow> None
         | Some t \<Rightarrow> if t = [] then None else jwt_verify lib t (JWT_SECRET var))"

section \<open>Request endpoint\<close>

text \<open>
  The handler of \<^verbatim>\<open>POST /ingest\<close> behind \<^verbatim>\<open>authHttp\<close>, from \<^verbatim>\<open>req.body\<close> (\<open>None\<close> when
  it is undefined). \<open>Inl\<close>: the handler's promise is rejected and it writes no response.
\<close>

definition ingest ::
  "joi_convert \<Rightarrow> io \<Rightarrow> int \<Rightarrow> json option \<Rightarrow> server \<Rightarrow> (error + response) \<times> server" where
  "ingest cv w_io now payload s =
     (if (case payload of None \<Rightarrow> True | Some p \<Rightarrow> \<not> truthy p \<or> p = JArr [])
      then (Inr (400, JObj [(''error'', JStr ''empty payload'')]), s)
      else
        let events = (case payload of Some (JArr xs) \<Rightarrow> xs | Some p \<Rightarrow> [p] | None \<Rightarrow> []);
            valid = validate_loop cv events []
        in if valid = [] then (Inr (400, JObj [(''error'', JStr ''no valid events'')]), s)
           else (case handleEvents w_io now valid s of
                   (Inl err, s') \<Rightarrow> (Inl err, s')
                 | (Inr u, s') \<Rightarrow>
                     (Inr (200, JObj [(''accepted'', JNum (of_nat (length valid)))]), s')))"

record http_req =
  authorization :: "string option"
  body :: "json option"

definition post_ingest ::
  "jwt_lib \<Rightarrow> string option \<Rightarrow> joi_convert \<Rightarrow> io \<Rightarrow> int \<Rightarrow> http_req \<Rightarrow> server
     \<Rightarrow> (error + response) \<times> server" where
  "post_ingest lib var cv w_io now req s =
     (case authHttp lib var (authorization req) of
        Inl resp \<Rightarrow> (Inr resp, s)
      | Inr decoded \<Rightarrow> ingest cv w_io now (body req) s)"

section \<open>Streaming endpoint\<close>

text \<open>
  The \<^verbatim>\<open>connection\<close> handler for socket \<open>ws\<close>. A request without identity has the socket
  closed (the code and reason are returned) and the handler returns before it registers
  anything on the socket.
\<close>

definition wss_connection ::
  "jwt_lib \<Rightarrow> string option \<Rightarrow> nat \<Rightarrow> ws_req \<Rightarrow> server \<Rightarrow> (nat \<times> string) option \<times> server" where
  "wss_connection lib var ws req s =
     (case authWsFromReq lib var req of
        None \<Rightarrow> (Some (1008, ''unauthorized''), s)
      | Some decoded \<Rightarrow>
          (None, s\<lparr>sessions := (sessions s)(ws \<mapsto>
             \<lparr>user = (case sub decoded of None \<Rightarrow> ''unknown'' | Some u \<Rightarrow> if u = [] then ''unknown'' else u),
              subscriptions = []\<rparr>)\<rparr>))"

text \<open>Property access \<^verbatim>\<open>msg.k\<close> on a parsed value other than \<^verbatim>\<open>null\<close>.\<close>

definition get_prop :: "json \<Rightarrow> string \<Rightarrow> json option" where
  "get_prop v k = (case v of JObj kvs \<Rightarrow> map_of kvs k | _ \<Rightarrow> None)"

text \<open>
  An inbound frame: binary, or text with its length and what \<^verbatim>\<open>JSON.parse\<close> makes of
  it (\<open>None\<close> when it throws).
\<close>

datatype ws_data = Binary | Text nat "json option"

text \<open>
  The \<^verbatim>\<open>message\<close> handler of socket \<open>ws\<close>, taken from its first statement to its last
  (the handler awaits between \<^verbatim>\<open>subscribe\<close> and the sending of the snapshot); a socket
  without session has no handler. Reading a property of \<^verbatim>\<open>null\<close> throws.
\<close>

definition ws_message ::
  "joi_convert \<Rightarrow> nat \<Rightarrow> io \<Rightarrow> int \<Rightarrow> nat \<Rightarrow> ws_data \<Rightarrow> server \<Rightarrow> (error + unit) \<times> server" where
  "ws_message cv MAX_MSG_BYTES w_io now ws d s =
     (case sessions s ws of
        None \<Rightarrow> (Inr (), s)
      | Some c \<Rightarrow>
          (case d of
             Binary \<Rightarrow> (Inr (), s)
           | Text len parsed \<Rightarrow>
               if len > MAX_MSG_BYTES then (Inr (), s)
               else (case parsed of
                       None \<Rightarrow> (Inr (), s)
                     | Some JNull \<Rightarrow> (Inl TypeError, s)
                     | Some msg \<Rightarrow>
                         (case (if get_prop msg ''type'' = Some (JStr ''subscribe'')
                                then get_prop msg ''topic'' else None) of
                            Some (JStr topic) \<Rightarrow>
                              (let s1 = subscribe ws topic s
                               in (Inr (), sendJson ws (agg_snapshot (latestAggregatesSnapshot now s1)) s1))
                          | _ \<Rightarrow>
                              (case (if get_prop msg ''type'' = Some (JStr ''events'')
                                     then get_prop msg ''events'' else None) of
                                 Some (JArr es) \<Rightarrow>
                                   (let sanitized = validate_loop cv es []
                                    in if sanitized \<noteq> [] then handleEvents w_io now sanitized s
                                       else (Inr (), s))
                               | _ \<Rightarrow> (Inr (), s))))))"

text \<open>The \<^verbatim>\<open>close\<close> handler: the socket leaves every topic, and an empty topic is deleted.\<close>

definition ws_close :: "nat \<Rightarrow> server \<Rightarrow> server" where
  "ws_close ws s =
     (case sessions s ws of
        None \<Rightarrow> s
      | Some c \<Rightarrow>
          s\<lparr>topicToSockets :=
               foldl (\<lambda>reg topic.
                        case reg topic of
                          None \<Rightarrow> reg
                        | Some l \<Rightarrow>
                            (let l' = removeAll ws l
                             in if l' = [] then reg(topic := None) else reg(topic \<mapsto> l')))
                     (topicToSockets s) (subscriptions c)\<rparr>)"

section \<open>Notions used in the statements\<close>

text \<open>The invariant of a bucket.\<close>

definition entry_ok :: "entry \<Rightarrow> bool" where
  "entry_ok e =
     (distinct (uniques e) \<and> distinct (map fst (routes e)) \<and> length (uniques e) \<le> count e
      \<and> errors e \<le> count e \<and> sum_list (map snd (routes e)) = count e)"

text \<open>The count of the bucket of window \<open>w\<close> that starts at \<open>b\<close>; an absent bucket counts 0.\<close>

definition bucket_count :: "server \<Rightarrow> int \<Rightarrow> int \<Rightarrow> nat" where
  "bucket_count s w b = (case memoryWindows s w b of None \<Rightarrow> 0 | Some e \<Rightarrow> count e)"

text \<open>The bucket of window \<open>w\<close> at \<open>b\<close> as the loop takes it up: a new one when absent.\<close>

definition active_entry :: "server \<Rightarrow> int \<Rightarrow> int \<Rightarrow> entry" where
  "active_entry s w b = (case memoryWindows s w b of None \<Rightarrow> new_entry | Some e \<Rightarrow> e)"

text \<open>
  The payload of the delta for a batch: per window, the serialization of the active bucket
  with the batch added.
\<close>

definition delta_payload :: "server \<Rightarrow> int \<Rightarrow> event list \<Rightarrow> (string \<times> serialized) list" where
  "delta_payload s now evs =
     map (\<lambda>w. (window_key w,
               serializeEntry (foldl add_event (active_entry s w (getBucketStart now w)) evs)))
         WINDOW_SIZES"

text \<open>The sockets a broadcast on a topic reaches: subscribed, open and not saturated.\<close>

definition receivers :: "io \<Rightarrow> server \<Rightarrow> string \<Rightarrow> nat list" where
  "receivers w_io s topic =
     filter (\<lambda>ws. can_send (socket w_io ws))
       (case topicToSockets s topic of None \<Rightarrow> [] | Some l \<Rightarrow> l)"

text \<open>No \<^verbatim>\<open>updateOne\<close> of the call is rejected.\<close>

definition upserts_succeed :: "io \<Rightarrow> bool" where
  "upserts_succeed w_io = list_all (\<lambda>w. \<not> updateOne_fails w_io w) WINDOW_SIZES"

text \<open>
  The index \<^verbatim>\<open>eventId_1\<close> can be had: it is there as the server asks for it, or neither
  its name nor its key pattern is taken.
\<close>

definition eventId_1_available :: "(string \<times> index_spec) list \<Rightarrow> bool" where
  "eventId_1_available idx =
     (map_of idx ''eventId_1''
        = Some \<lparr>key_fields = [''eventId''], expireAfterSeconds = None, unique = True\<rparr>
      \<or> (map_of idx ''eventId_1'' = None
          \<and> \<not> list_ex (\<lambda>(n, i). key_fields i = [''eventId'']) idx))"

text \<open>The same batch submitted once per element of \<open>xs\<close>, each time in its own world and
  at its own receipt time.\<close>

definition resubmit :: "(io \<times> int) list \<Rightarrow> event list \<Rightarrow> server \<Rightarrow> server" where
  "resubmit xs evs s = run (map (\<lambda>(w_io, now). Ingest w_io now evs) xs) s"

text \<open>
  The body of a request is empty when it is missing or falsy, or the empty array; an
  empty object is one record without fields.
\<close>

definition payload_empty :: "json option \<Rightarrow> bool" where
  "payload_empty payload = (case payload of None \<Rightarrow> True | Some p \<Rightarrow> \<not> truthy p \<or> p = JArr [])"

text \<open>The records of a body: the elements of an array, or the one value itself.\<close>

definition records :: "json option \<Rightarrow> json list" where
  "records payload = (case payload of None \<Rightarrow> [] | Some (JArr xs) \<Rightarrow> xs | Some p \<Rightarrow> [p])"

text \<open>A record passes validation.\<close>

definition passes :: "joi_convert \<Rightarrow> json \<Rightarrow> bool" where
  "passes cv e = (eventSchema_validate cv (withDefaults e) \<noteq> None)"

text \<open>
  The resolution of the credential in the words of the specification: the token of an
  \<^verbatim>\<open>Authorization: Bearer <t>\<close> header, else a non-prefixed \<^verbatim>\<open>Authorization\<close> header
  value, else the \<^verbatim>\<open>token\<close> query parameter; an empty credential counts as absent. The
  identity is what verification against the secret makes of it.
\<close>

definition spec_credential :: "string option \<Rightarrow> string option \<Rightarrow> string option" where
  "spec_credential auth_header query_token =
     (let from_query = (case query_token of None \<Rightarrow> None | Some t \<Rightarrow> if t = [] then None else Some t)
      in case auth_header of
           None \<Rightarrow> from_query
         | Some a \<Rightarrow>
             if prefix ''Bearer '' a \<and> drop 7 a \<noteq> [] then Some (drop 7 a)
             else if \<not> prefix ''Bearer '' a \<and> a \<noteq> [] then Some a
             else from_query)"

definition spec_identity ::
  "jwt_lib \<Rightarrow> string option \<Rightarrow> string option \<Rightarrow> string option \<Rightarrow> jwt_payload option" where
  "spec_identity lib var auth_header query_token =
     (case spec_credential auth_header query_token of
        None \<Rightarrow> None
      | Some t \<Rightarrow> jwt_verify lib t (JWT_SECRET var))"

text \<open>The credential of a request in the \<^verbatim>\<open>Bearer\<close> form alone.\<close>

definition bearer_credential :: "string option \<Rightarrow> string option" where
  "bearer_credential auth_header =
     (case auth_header of
        None \<Rightarrow> None
      | Some a \<Rightarrow> if prefix ''Bearer '' a \<and> drop 7 a \<noteq> [] then Some (drop 7 a) else None)"

text \<open>Every bucket of the server satisfies the invariant.\<close>

definition server_ok :: "server \<Rightarrow> bool" where
  "server_ok s = (\<forall>w b e. memoryWindows s w b = Some e \<longrightarrow> entry_ok e)"

section \<open>Sample inputs\<close>

text \<open>An event as a client sends it, with a version-4 UUID as its id.\<close>

definition sample_event :: event where
  "sample_event =
     \<lparr>eventId = ''123e4567-e89b-42d3-a456-426614174000'', ts = 1000, userId = ''u1'',
      sessionId = ''s1'', route = ''/'', action = ''view'', metadata = []\<rparr>"

text \<open>The JSON record of an event like it, with the given id.\<close>

definition sample_record :: "string \<Rightarrow> json" where
  "sample_record i =
     JObj [(''eventId'', JStr i), (''ts'', JNum 1000), (''userId'', JStr ''u1''),
           (''sessionId'', JStr ''s1''), (''route'', JStr ''/''), (''action'', JStr ''view''),
           (''metadata'', JObj [])]"

text \<open>A world where no call fails and every socket is open with nothing buffered.\<close>

definition calm_io :: io where
  "calm_io =
     \<lparr>insertMany_fails = False, updateOne_fails = (\<lambda>w. False),
      socket = (\<lambda>ws. \<lparr>readyState_OPEN = True, bufferedAmount = 0\<rparr>)\<rparr>"

text \<open>The same world with every \<^verbatim>\<open>updateOne\<close> rejected.\<close>

definition upsert_down_io :: io where
  "upsert_down_io = calm_io\<lparr>updateOne_fails := (\<lambda>w. True)\<rparr>"

text \<open>The calm world with the \<^verbatim>\<open>insertMany\<close> rejected.\<close>

definition insert_down_io :: io where
  "insert_down_io = calm_io\<lparr>insertMany_fails := True\<rparr>"

text \<open>A Joi that converts no string.\<close>

definition no_convert :: joi_convert where
  "no_convert = \<lparr>number_of_string = (\<lambda>x. None), object_of_string = (\<lambda>x. None)\<rparr>"

text \<open>
  A stand-in for the token library: the token of a subject under a secret is the secret,
  a colon and the subject.
\<close>

definition toy_jwt :: jwt_lib where
  "toy_jwt =
     \<lparr>jwt_sign = (\<lambda>p secret expiresIn. secret @ '':'' @ (case sub p of None \<Rightarrow> [] | Some u \<Rightarrow> u)),
      jwt_verify = (\<lambda>token secret.
         if prefix (secret @ '':'') token then Some \<lparr>sub = Some (drop (length secret + 1) token)\<rparr>
         else None)\<rparr>"

text \<open>An authenticated request with the given body, under the default secret.\<close>

definition sample_request :: "json option \<Rightarrow> http_req" where
  "sample_request b = \<lparr>authorization = Some ''Bearer change_me:u1'', body = b\<rparr>"

text \<open>A start-up during which the database rejects nothing.\<close>

definition calm_boot :: boot_io where
  "calm_boot =
     \<lparr>indexes_fails = False, dropIndex_fails = False, createIndex_fails = (\<lambda>name. False)\<rparr>"

text \<open>A start-up during which the creation of the unique index is rejected.\<close>

definition no_unique_boot :: boot_io where
  "no_unique_boot = calm_boot\<lparr>createIndex_fails := (\<lambda>name. name = ''eventId_1'')\<rparr>"

text \<open>The server after a calm first start-up with the default of seven days.\<close>

definition started_server :: server where
  "started_server =
     init_server
       \<lparr>eventsIdx :=
          [(''ts_1'', \<lparr>key_fields = [''ts''], expireAfterSeconds = Some 604800, unique = False\<rparr>),
           (''sessionId_1'', \<lparr>key_fields = [''sessionId''], expireAfterSeconds = None, unique = False\<rparr>),
           (''userId_1'', \<lparr>key_fields = [''userId''], expireAfterSeconds = None, unique = False\<rparr>),
           (''route_1'', \<lparr>key_fields = [''route''], expireAfterSeconds = None, unique = False\<rparr>),
           (''eventId_1'', \<lparr>key_fields = [''eventId''], expireAfterSeconds = None, unique = True\<rparr>)],
        aggIdx :=
          [(''window_bucketStart_1'',
            \<lparr>key_fields = [''window'', ''bucketStart''], expireAfterSeconds = None, unique = False\<rparr>)]\<rparr>"

text \<open>A world in which MongoDB rejects every call; the sockets are as in the calm one.\<close>

definition mongo_down_io :: io where
  "mongo_down_io = calm_io\<lparr>insertMany_fails := True, updateOne_fails := (\<lambda>w. True)\<rparr>"

section \<open>Properties of the aggregation\<close>

subsection \<open>Insertion-ordered containers\<close>

lemma window_keys: "window_key 1 = ''1s''" "window_key 5 = ''5s''" "window_key 60 = ''60s''"
  by (simp_all add: window_key_def string_of_int_def string_of_nat.simps)

lemma map_fst_assoc_set: "map fst (assoc_set k v kvs) = set_add k (map fst kvs)"
  by (induction kvs) (force simp: set_add_def)+

lemma keys_add_event: "map fst (routes (add_event e ev)) = set_add (route ev) (map fst (routes e))"
  by (simp add: add_event_def Let_def map_fst_assoc_set)

lemma keys_foldl_add_event:
  "map fst (routes (foldl add_event new_entry evs)) = rev (remdups (rev (map route evs)))"
proof (induction evs rule: rev_induct)
  case Nil
  then show ?case by (simp add: new_entry_def)
next
  case (snoc ev evs)
  then show ?case by (simp add: keys_add_event set_add_def)
qed

subsection \<open>The sort of \<^verbatim>\<open>serializeEntry\<close>\<close>

lemma set_insert_desc: "set (insert_desc x ys) = insert x (set ys)"
  by (induction ys) auto

lemma length_insert_desc: "length (insert_desc x ys) = Suc (length ys)"
  by (induction ys) auto

lemma sorted_insert_desc:
  "sorted_wrt (\<lambda>a b. snd b \<le> snd a) ys \<Longrightarrow>
   sorted_wrt (\<lambda>a b. snd b \<le> snd a) (insert_desc x ys)"
  by (induction ys) (auto simp: set_insert_desc)

lemma filter_insert_desc:
  "sorted_wrt (\<lambda>a b. snd b \<le> snd a) ys \<Longrightarrow>
   filter (\<lambda>p. snd p = c) (insert_desc x ys) =
     (if snd x = c then x # filter (\<lambda>p. snd p = c) ys else filter (\<lambda>p. snd p = c) ys)"
proof (induction ys)
  case Nil
  then show ?case by simp
next
  case (Cons y ys)
  show ?case
  proof (cases "snd y \<le> snd x")
    case True
    then show ?thesis by simp
  next
    case False
    have "\<forall>z \<in> set ys. snd z \<le> snd y" using Cons.prems by simp
    with False Cons show ?thesis by auto
  qed
qed

lemma sorted_sort_desc: "sorted_wrt (\<lambda>a b. snd b \<le> snd a) (sort_desc xs)"
  by (induction xs) (simp_all add: sort_desc_def sorted_insert_desc)

lemma filter_sort_desc:
  "filter (\<lambda>p. snd p = c) (sort_desc xs) = filter (\<lambda>p. snd p = c) xs"
proof (induction xs)
  case Nil
  then show ?case by (simp add: sort_desc_def)
next
  case (Cons x xs)
  have "sort_desc (x # xs) = insert_desc x (sort_desc xs)" by (simp add: sort_desc_def)
  then show ?case using Cons filter_insert_desc [OF sorted_sort_desc, of c x xs] by simp
qed

lemma set_sort_desc: "set (sort_desc xs) = set xs"
  by (induction xs) (simp_all add: sort_desc_def set_insert_desc)

lemma length_sort_desc: "length (sort_desc xs) = length xs"
  by (induction xs) (simp_all add: sort_desc_def length_insert_desc)

lemma prefix_filter_take: "prefix (filter P (take n xs)) (filter P xs)"
proof -
  have "filter P xs = filter P (take n xs) @ filter P (drop n xs)"
    by (metis append_take_drop_id filter_append)
  then show ?thesis by (simp add: prefix_def)
qed

subsection \<open>The invariant of the buckets\<close>

lemma entry_ok_new: "entry_ok new_entry"
  by (simp add: entry_ok_def new_entry_def)

lemma sum_assoc_set_bump:
  "sum_list (map snd (assoc_set k (Suc (routes_get rs k)) rs)) = Suc (sum_list (map snd rs))"
  by (induction rs) (auto simp: routes_get_def)

lemma routes_get_assoc_set:
  "routes_get (assoc_set k v rs) r = (if r = k then v else routes_get rs r)"
  by (induction rs) (auto simp: routes_get_def)

lemma distinct_set_add: "distinct xs \<Longrightarrow> distinct (set_add x xs)"
  by (simp add: set_add_def)

lemma length_set_add: "length (set_add x xs) \<le> Suc (length xs)"
  by (simp add: set_add_def)

lemma count_add_event: "count (add_event e ev) = count e + 1"
  by (simp add: add_event_def Let_def)

lemma errors_add_event: "errors (add_event e ev) = errors e + (if action ev = ''error'' then 1 else 0)"
  by (simp add: add_event_def Let_def)

lemma uniques_add_event:
  "uniques (add_event e ev) = (if userId ev = [] then uniques e else set_add (userId ev) (uniques e))"
  by (simp add: add_event_def Let_def)

lemma routes_add_event:
  "routes (add_event e ev) = assoc_set (route ev) (Suc (routes_get (routes e) (route ev))) (routes e)"
  by (simp add: add_event_def Let_def)

lemma entry_ok_add_event: "entry_ok e \<Longrightarrow> entry_ok (add_event e ev)"
  unfolding entry_ok_def
  using length_set_add [of "userId ev" "uniques e"]
  by (simp add: count_add_event errors_add_event uniques_add_event routes_add_event
      sum_assoc_set_bump map_fst_assoc_set distinct_set_add)

lemma entry_ok_foldl: "entry_ok e \<Longrightarrow> entry_ok (foldl add_event e evs)"
  by (induction evs arbitrary: e) (simp_all add: entry_ok_add_event)

lemma windows_loop_ok:
  "server_ok s \<Longrightarrow> server_ok (snd (windows_loop w_io now evs ws deltas s))"
proof (induction ws arbitrary: deltas s)
  case Nil
  then show ?case by simp
next
  case (Cons w ws)
  let ?b = "getBucketStart now w"
  let ?e = "case memoryWindows s w ?b of None \<Rightarrow> new_entry | Some e0 \<Rightarrow> e0"
  let ?s1 = "s\<lparr>memoryWindows := (memoryWindows s)(w := (memoryWindows s w)(?b \<mapsto> foldl add_event ?e evs))\<rparr>"
  have "entry_ok ?e" using Cons.prems by (auto simp: server_ok_def entry_ok_new split: option.splits)
  then have ok1: "server_ok ?s1" using Cons.prems by (auto simp: server_ok_def entry_ok_foldl)
  then have ok2: "server_ok (?s1\<lparr>aggCol := c\<rparr>)" for c by (simp add: server_ok_def)
  show ?case
  proof (cases "updateOne_fails w_io w")
    case True
    then show ?thesis using ok1 by (simp add: Let_def)
  next
    case False
    then show ?thesis using Cons.IH [OF ok2] by (simp add: Let_def)
  qed
qed

lemma memoryWindows_sendJson [simp]: "memoryWindows (sendJson ws f s) = memoryWindows s"
  by (simp add: sendJson_def)

lemma memoryWindows_broadcast [simp]: "memoryWindows (broadcast sock topic f s) = memoryWindows s"
proof -
  have "memoryWindows (foldl (\<lambda>s' ws. if can_send (sock ws) then sendJson ws f s' else s') s l) = memoryWindows s" for l
    by (induction l arbitrary: s) simp_all
  then show ?thesis by (simp add: broadcast_def split: option.splits)
qed

lemma handleEvents_ok:
  assumes ok: "server_ok s"
  shows "server_ok (snd (handleEvents w_io now evs s))"
proof -
  have fin: "server_ok (snd (case windows_loop w_io now evs WINDOW_SIZES [] t of
                 (Inl err, s2) \<Rightarrow> (Inl err, s2)
               | (Inr deltas, s2) \<Rightarrow>
                   (Inr (), broadcast (socket w_io) ''dashboard:global'' (agg_delta deltas) s2)))"
    if t: "server_ok t" for t
  proof -
    obtain r s2 where eq: "windows_loop w_io now evs WINDOW_SIZES [] t = (r, s2)"
      by (cases "windows_loop w_io now evs WINDOW_SIZES [] t")
    have "server_ok s2" using windows_loop_ok [OF t, of w_io now evs WINDOW_SIZES "[]"] eq by simp
    then show ?thesis using eq by (cases r) (simp_all add: server_ok_def)
  qed
  have ok1: "server_ok (s\<lparr>eventsCol := c\<rparr>)" for c using ok by (simp add: server_ok_def)
  show ?thesis
    using fin [OF ok] fin [OF ok1] ok by (simp add: handleEvents_def Let_def)
qed

lemma janitor_loop_ok: "server_ok s \<Longrightarrow> server_ok (janitor_loop now ws s)"
proof (induction ws arbitrary: s)
  case Nil
  then show ?case by simp
next
  case (Cons w ws)
  have "server_ok (s\<lparr>memoryWindows := (memoryWindows s)
            (w := (\<lambda>bucketStart. if bucketStart < now - w * 1000 * 5 then None
                                 else memoryWindows s w bucketStart))\<rparr>)"
    using Cons.prems by (auto simp: server_ok_def split: if_splits)
  then show ?case using Cons.IH by simp
qed

lemma step_ok: "server_ok s \<Longrightarrow> server_ok (step s c)"
  by (cases c) (simp_all add: handleEvents_ok janitor_def janitor_loop_ok)

lemma run_ok: "server_ok s \<Longrightarrow> server_ok (run calls s)"
  unfolding run_def by (induction calls arbitrary: s) (simp_all add: step_ok)

lemma init_ok: "server_ok init_server"
  by (simp add: server_ok_def init_server_def)

text \<open>
  C5. After any sequence of calls of \<^verbatim>\<open>handleEvents\<close> (with any batches, at any receipt
  times, whatever the persistence layer does) and janitor ticks, every bucket of every
  window map holds distinct user ids, no more of them than its count, no more errors than
  its count, and route tallies that sum to its count. One event adds 1 to the count, 1 to
  the tally of its own route and to no other, 1 to the errors exactly when its action is
  "error", and leaves the user ids as they are when its \<^verbatim>\<open>userId\<close> is empty.
\<close>

theorem buckets_invariant:
  "(memoryWindows (run calls init_server) w b = Some e \<longrightarrow>
      distinct (uniques e) \<and> length (uniques e) \<le> count e \<and> errors e \<le> count e
      \<and> distinct (map fst (routes e)) \<and> sum_list (map snd (routes e)) = count e)
   \<and> count (add_event e' ev) = count e' + 1
   \<and> routes_get (routes (add_event e' ev)) r = routes_get (routes e') r + (if r = route ev then 1 else 0)
   \<and> sum_list (map snd (routes (add_event e' ev))) = sum_list (map snd (routes e')) + 1
   \<and> errors (add_event e' ev) = errors e' + (if action ev = ''error'' then 1 else 0)
   \<and> uniques (add_event e' ev) = (if userId ev = [] then uniques e' else set_add (userId ev) (uniques e'))"
proof -
  have "memoryWindows (run calls init_server) w b = Some e \<longrightarrow> entry_ok e"
    using run_ok [OF init_ok, of calls] by (simp add: server_ok_def)
  then show ?thesis
    by (simp add: entry_ok_def count_add_event errors_add_event uniques_add_event
        routes_add_event sum_assoc_set_bump routes_get_assoc_set)
qed

theorem buckets_invariant_witness:
  "memoryWindows (run [Ingest calm_io 1700000000000 [sample_event]] init_server) 60 1699999980000
     = Some \<lparr>count = 1, uniques = [''u1''], routes = [(''/'', 1)], errors = 0\<rparr>
   \<and> length (uniques \<lparr>count = 1, uniques = [''u1''], routes = [(''/'', 1)], errors = 0\<rparr>)
       \<le> count \<lparr>count = 1, uniques = [''u1''], routes = [(''/'', 1)], errors = 0\<rparr>
   \<and> sum_list (map snd (routes \<lparr>count = 1, uniques = [''u1''], routes = [(''/'', 1)], errors = 0\<rparr>))
       = count \<lparr>count = 1, uniques = [''u1''], routes = [(''/'', 1)], errors = 0\<rparr>"
proof -
  have h: "memoryWindows (run [Ingest calm_io 1700000000000 [sample_event]] init_server) 60 1699999980000
     = Some \<lparr>count = 1, uniques = [''u1''], routes = [(''/'', 1)], errors = 0\<rparr>"
    by (simp add: run_def handleEvents_def WINDOW_SIZES_def window_keys calm_io_def sample_event_def
        init_server_def broadcast_def Let_def add_event_def new_entry_def serializeEntry_def
        sort_desc_def routes_get_def set_add_def insertMany_def insert_doc_def getBucketStart_def
        updateOne_upsert_def)
  show ?thesis
    using h buckets_invariant [of "[Ingest calm_io 1700000000000 [sample_event]]" 60 1699999980000
        "\<lparr>count = 1, uniques = [''u1''], routes = [(''/'', 1)], errors = 0\<rparr>"]
    by blast
qed

subsection \<open>The routes of a serialized bucket\<close>

lemma routes_foldl_add_event:
  "routes (foldl add_event e evs) =
     foldl (\<lambda>rs r. assoc_set r (Suc (routes_get rs r)) rs) (routes e) (map route evs)"
  by (induction evs arbitrary: e) (simp_all add: routes_add_event)

lemma top_routes_example:
  assumes "map route evs = replicate 5 ''/a'' @ replicate 3 ''/b'' @ replicate 4 ''/c''"
  shows "s_routes (serializeEntry (foldl add_event new_entry evs))
           = [(''/a'', 5), (''/c'', 4), (''/b'', 3)]"
proof -
  have "routes (foldl add_event new_entry evs) = [(''/a'', 5), (''/b'', 3), (''/c'', 4)]"
    unfolding routes_foldl_add_event assms
    by (simp add: new_entry_def routes_get_def numeral_eq_Suc)
  then show ?thesis
    by (simp add: serializeEntry_def sort_desc_def)
qed

text \<open>
  C7. The serialized routes of any bucket are at most ten, in descending order of count, and
  the routes of any one count \<open>c\<close> appear in the order they have in the bucket's Map (what
  the limit of ten cuts off is cut from the end). The Map's order is the order in which the
  routes were first seen: a bucket filled from empty by the events \<open>evs\<close> lists each route
  once, at the place of its first occurrence. Five events on /a, then three on /b, then
  four on /c serialize as /a 5, /c 4, /b 3.
\<close>

theorem serializeEntry_top_routes:
  "length (s_routes (serializeEntry e)) \<le> 10
   \<and> sorted_wrt (\<lambda>a b. snd b \<le> snd a) (s_routes (serializeEntry e))
   \<and> prefix (filter (\<lambda>p. snd p = c) (s_routes (serializeEntry e)))
             (filter (\<lambda>p. snd p = c) (routes e))
   \<and> set (s_routes (serializeEntry e)) \<subseteq> set (routes e)
   \<and> map fst (routes (foldl add_event new_entry evs)) = rev (remdups (rev (map route evs)))
   \<and> (map route evs' = replicate 5 ''/a'' @ replicate 3 ''/b'' @ replicate 4 ''/c'' \<longrightarrow>
        s_routes (serializeEntry (foldl add_event new_entry evs'))
          = [(''/a'', 5), (''/c'', 4), (''/b'', 3)])"
proof -
  have len: "length (s_routes (serializeEntry e)) \<le> 10"
    by (simp add: serializeEntry_def)
  have srt: "sorted_wrt (\<lambda>a b. snd b \<le> snd a) (s_routes (serializeEntry e))"
    by (simp add: serializeEntry_def sorted_wrt_take sorted_sort_desc)
  have tie: "prefix (filter (\<lambda>p. snd p = c) (s_routes (serializeEntry e)))
                    (filter (\<lambda>p. snd p = c) (routes e))"
    using prefix_filter_take [of "\<lambda>p. snd p = c" 10 "sort_desc (routes e)"]
    by (simp add: serializeEntry_def filter_sort_desc)
  have sub: "set (s_routes (serializeEntry e)) \<subseteq> set (routes e)"
    using set_take_subset [of 10 "sort_desc (routes e)"]
    by (simp add: serializeEntry_def set_sort_desc)
  show ?thesis
    using len srt tie sub keys_foldl_add_event [of evs] top_routes_example [of evs']
    by blast
qed

theorem serializeEntry_top_routes_witness:
  "map route (replicate 5 (sample_event\<lparr>route := ''/a''\<rparr>) @ replicate 3 (sample_event\<lparr>route := ''/b''\<rparr>)
               @ replicate 4 (sample_event\<lparr>route := ''/c''\<rparr>))
     = replicate 5 ''/a'' @ replicate 3 ''/b'' @ replicate 4 ''/c''
   \<and> s_routes (serializeEntry (foldl add_event new_entry
        (replicate 5 (sample_event\<lparr>route := ''/a''\<rparr>) @ replicate 3 (sample_event\<lparr>route := ''/b''\<rparr>)
           @ replicate 4 (sample_event\<lparr>route := ''/c''\<rparr>))))
     = [(''/a'', 5), (''/c'', 4), (''/b'', 3)]"
proof -
  have h: "map route (replicate 5 (sample_event\<lparr>route := ''/a''\<rparr>) @ replicate 3 (sample_event\<lparr>route := ''/b''\<rparr>)
               @ replicate 4 (sample_event\<lparr>route := ''/c''\<rparr>))
     = replicate 5 ''/a'' @ replicate 3 ''/b'' @ replicate 4 ''/c''"
    by simp
  show ?thesis
    using h serializeEntry_top_routes [of new_entry 0 "[]"
        "replicate 5 (sample_event\<lparr>route := ''/a''\<rparr>) @ replicate 3 (sample_event\<lparr>route := ''/b''\<rparr>)
           @ replicate 4 (sample_event\<lparr>route := ''/c''\<rparr>)"]
    by blast
qed

subsection \<open>What a call of \<^verbatim>\<open>handleEvents\<close> changes\<close>

lemma getBucketStart_floor:
  "getBucketStart t w = \<lfloor>real_of_int t / real_of_int (w * 1000)\<rfloor> * (w * 1000)"
  by (simp add: getBucketStart_def Let_def floor_divide_of_int_eq del: of_int_mult)

lemma windows_loop_other_buckets:
  "b \<noteq> getBucketStart now w \<Longrightarrow>
   memoryWindows (snd (windows_loop w_io now evs ws deltas s)) w b = memoryWindows s w b"
  by (induction ws arbitrary: deltas s) (auto simp: Let_def)

lemma windows_loop_wire [simp]: "wire (snd (windows_loop w_io now evs ws deltas s)) = wire s"
  by (induction ws arbitrary: deltas s) (simp_all add: Let_def)

lemma windows_loop_topics [simp]:
  "topicToSockets (snd (windows_loop w_io now evs ws deltas s)) = topicToSockets s"
  by (induction ws arbitrary: deltas s) (simp_all add: Let_def)

lemma windows_loop_sessions [simp]:
  "sessions (snd (windows_loop w_io now evs ws deltas s)) = sessions s"
  by (induction ws arbitrary: deltas s) (simp_all add: Let_def)

lemma windows_loop_eventsCol [simp]:
  "eventsCol (snd (windows_loop w_io now evs ws deltas s)) = eventsCol s"
  by (induction ws arbitrary: deltas s) (simp_all add: Let_def)

text \<open>
  The loop reads of the state only the bucket maps and the aggregate collection, and of
  the batch only what the buckets and the counters take from it.
\<close>

lemma windows_loop_agree:
  assumes "\<And>e. foldl add_event e evs = foldl add_event e evs'"
      and "length evs = length evs'"
      and "length (filter (\<lambda>ev. action ev = ''error'') evs)
             = length (filter (\<lambda>ev. action ev = ''error'') evs')"
      and "memoryWindows s = memoryWindows t" and "aggCol s = aggCol t"
  shows "fst (windows_loop w_io now evs ws deltas s) = fst (windows_loop w_io now evs' ws deltas t)
       \<and> memoryWindows (snd (windows_loop w_io now evs ws deltas s))
           = memoryWindows (snd (windows_loop w_io now evs' ws deltas t))
       \<and> aggCol (snd (windows_loop w_io now evs ws deltas s))
           = aggCol (snd (windows_loop w_io now evs' ws deltas t))"
  using assms(4,5)
proof (induction ws arbitrary: deltas s t)
  case Nil
  then show ?case by simp
next
  case (Cons w ws)
  let ?b = "getBucketStart now w"
  let ?e = "foldl add_event (case memoryWindows t w ?b of None \<Rightarrow> new_entry | Some e0 \<Rightarrow> e0) evs'"
  let ?m = "(memoryWindows t)(w := (memoryWindows t w)(?b \<mapsto> ?e))"
  let ?a = "updateOne_upsert w ?b (length evs')
              (length (filter (\<lambda>ev. action ev = ''error'') evs')) (aggCol t)"
  let ?d = "assoc_set (window_key w) (serializeEntry ?e) deltas"
  show ?case
  proof (cases "updateOne_fails w_io w")
    case True
    then show ?thesis using Cons.prems assms(1) by (simp add: Let_def)
  next
    case False
    have L: "windows_loop w_io now evs (w # ws) deltas s
               = windows_loop w_io now evs ws ?d (s\<lparr>memoryWindows := ?m, aggCol := ?a\<rparr>)"
      using False Cons.prems assms(1,2,3) by (simp add: Let_def)
    have R: "windows_loop w_io now evs' (w # ws) deltas t
               = windows_loop w_io now evs' ws ?d (t\<lparr>memoryWindows := ?m, aggCol := ?a\<rparr>)"
      using False by (simp add: Let_def)
    show ?thesis
      unfolding L R by (rule Cons.IH) simp_all
  qed
qed

lemma add_event_ts [simp]: "add_event e (ev\<lparr>ts := x\<rparr>) = add_event e ev"
  by (simp add: add_event_def Let_def)

lemma foldl_add_event_ts: "foldl add_event e (map (\<lambda>ev. ev\<lparr>ts := 0\<rparr>) evs) = foldl add_event e evs"
  by (induction evs arbitrary: e) simp_all

lemma errors_filter_ts:
  "length (filter (\<lambda>ev. action ev = ''error'') (map (\<lambda>ev. ev\<lparr>ts := 0\<rparr>) evs))
     = length (filter (\<lambda>ev. action ev = ''error'') evs)"
  by (induction evs) simp_all

lemma wire_sendJson [simp]: "wire (sendJson ws f s) = wire s @ [(ws, f)]"
  by (simp add: sendJson_def)

lemma topics_sendJson [simp]: "topicToSockets (sendJson ws f s) = topicToSockets s"
  by (simp add: sendJson_def)

lemma wire_broadcast:
  "wire (broadcast sock topic f s)
     = wire s @ map (\<lambda>ws. (ws, f))
                 (filter (\<lambda>ws. can_send (sock ws))
                    (case topicToSockets s topic of None \<Rightarrow> [] | Some l \<Rightarrow> l))"
proof -
  have "wire (foldl (\<lambda>s' ws. if can_send (sock ws) then sendJson ws f s' else s') s l)
          = wire s @ map (\<lambda>ws. (ws, f)) (filter (\<lambda>ws. can_send (sock ws)) l)" for l
    by (induction l arbitrary: s) simp_all
  then show ?thesis by (simp add: broadcast_def split: option.splits)
qed

lemma aggCol_broadcast [simp]: "aggCol (broadcast sock topic f s) = aggCol s"
proof -
  have "aggCol (foldl (\<lambda>s' ws. if can_send (sock ws) then sendJson ws f s' else s') s l) = aggCol s" for l
    by (induction l arbitrary: s) (simp_all add: sendJson_def)
  then show ?thesis by (simp add: broadcast_def split: option.splits)
qed

lemma eventsCol_broadcast [simp]: "eventsCol (broadcast sock topic f s) = eventsCol s"
proof -
  have "eventsCol (foldl (\<lambda>s' ws. if can_send (sock ws) then sendJson ws f s' else s') s l) = eventsCol s" for l
    by (induction l arbitrary: s) (simp_all add: sendJson_def)
  then show ?thesis by (simp add: broadcast_def split: option.splits)
qed

text \<open>\<^verbatim>\<open>handleEvents\<close> in terms of the loop, whatever the insert did.\<close>

lemma handleEvents_unfold:
  assumes "evs \<noteq> []"
  shows "\<exists>c. handleEvents w_io now evs s =
           (case windows_loop w_io now evs WINDOW_SIZES [] (s\<lparr>eventsCol := c\<rparr>) of
              (Inl err, s2) \<Rightarrow> (Inl err, s2)
            | (Inr deltas, s2) \<Rightarrow>
                (Inr (), broadcast (socket w_io) ''dashboard:global'' (agg_delta deltas) s2))
         \<and> c = (if insertMany_fails w_io then eventsCol s else insertMany (eventId_unique s) evs (eventsCol s))"
  using assms by (simp add: handleEvents_def Let_def)

lemma handleEvents_memory:
  "memoryWindows (snd (handleEvents w_io now evs s))
     = (if evs = [] then memoryWindows s
        else memoryWindows (snd (windows_loop w_io now evs WINDOW_SIZES [] s)))"
proof (cases "evs = []")
  case True
  then show ?thesis by (simp add: handleEvents_def)
next
  case False
  obtain c where h: "handleEvents w_io now evs s =
           (case windows_loop w_io now evs WINDOW_SIZES [] (s\<lparr>eventsCol := c\<rparr>) of
              (Inl err, s2) \<Rightarrow> (Inl err, s2)
            | (Inr deltas, s2) \<Rightarrow>
                (Inr (), broadcast (socket w_io) ''dashboard:global'' (agg_delta deltas) s2))"
    using handleEvents_unfold [OF False] by blast
  obtain r s2 where eq: "windows_loop w_io now evs WINDOW_SIZES [] (s\<lparr>eventsCol := c\<rparr>) = (r, s2)"
    by (cases "windows_loop w_io now evs WINDOW_SIZES [] (s\<lparr>eventsCol := c\<rparr>)")
  have "memoryWindows s2 = memoryWindows (snd (windows_loop w_io now evs WINDOW_SIZES [] s))"
    using windows_loop_agree [of evs evs "s\<lparr>eventsCol := c\<rparr>" s w_io now WINDOW_SIZES "[]"] eq
    by simp
  then show ?thesis using False h eq by (cases r) simp_all
qed


lemma windows_loop_success:
  assumes "list_all (\<lambda>w. \<not> updateOne_fails w_io w) ws" and "distinct ws"
  shows "fst (windows_loop w_io now evs ws deltas s)
           = Inr (foldl (\<lambda>d w. assoc_set (window_key w)
                     (serializeEntry (foldl add_event (active_entry s w (getBucketStart now w)) evs)) d)
                   deltas ws)
       \<and> (\<forall>w b. memoryWindows (snd (windows_loop w_io now evs ws deltas s)) w b
              = (if w \<in> set ws \<and> b = getBucketStart now w
                 then Some (foldl add_event (active_entry s w b) evs)
                 else memoryWindows s w b))"
  using assms
proof (induction ws arbitrary: deltas s)
  case Nil
  then show ?case by simp
next
  case (Cons w ws)
  let ?b = "getBucketStart now w"
  let ?e = "foldl add_event (active_entry s w ?b) evs"
  let ?s1 = "s\<lparr>memoryWindows := (memoryWindows s)(w := (memoryWindows s w)(?b \<mapsto> ?e)),
               aggCol := updateOne_upsert w ?b (length evs)
                           (length (filter (\<lambda>ev. action ev = ''error'') evs)) (aggCol s)\<rparr>"
  let ?d = "assoc_set (window_key w) (serializeEntry ?e) deltas"
  have ok: "\<not> updateOne_fails w_io w" and rest: "list_all (\<lambda>w. \<not> updateOne_fails w_io w) ws"
    and nin: "w \<notin> set ws" and dist: "distinct ws"
    using Cons.prems by simp_all
  have unf: "windows_loop w_io now evs (w # ws) deltas s = windows_loop w_io now evs ws ?d ?s1"
    using ok by (simp add: Let_def active_entry_def)
  have same: "active_entry ?s1 w' b = active_entry s w' b" if "w' \<noteq> w" for w' b
    using that by (simp add: active_entry_def)
  have fold_eq:
    "foldl (\<lambda>d w. assoc_set (window_key w)
             (serializeEntry (foldl add_event (active_entry ?s1 w (getBucketStart now w)) evs)) d) ?d ws
     = foldl (\<lambda>d w. assoc_set (window_key w)
             (serializeEntry (foldl add_event (active_entry s w (getBucketStart now w)) evs)) d) ?d ws"
  proof (intro foldl_cong refl)
    fix d x assume "x \<in> set ws"
    then have "x \<noteq> w" using nin by auto
    then show "assoc_set (window_key x)
             (serializeEntry (foldl add_event (active_entry ?s1 x (getBucketStart now x)) evs)) d
      = assoc_set (window_key x)
             (serializeEntry (foldl add_event (active_entry s x (getBucketStart now x)) evs)) d"
      using same [of x "getBucketStart now x"] by simp
  qed
  have mem: "memoryWindows (snd (windows_loop w_io now evs ws ?d ?s1)) w' b
              = (if w' \<in> set (w # ws) \<and> b = getBucketStart now w'
                 then Some (foldl add_event (active_entry s w' b) evs)
                 else memoryWindows s w' b)" for w' b
  proof (cases "w' = w")
    case True
    then show ?thesis using Cons.IH [OF rest dist, of ?d ?s1] nin by simp
  next
    case False
    then show ?thesis using Cons.IH [OF rest dist, of ?d ?s1] same [OF False] by simp
  qed
  show ?case
    unfolding unf using Cons.IH [OF rest dist, of ?d ?s1] fold_eq mem by simp
qed

lemma delta_payload_fold:
  "foldl (\<lambda>d w. assoc_set (window_key w)
             (serializeEntry (foldl add_event (active_entry s w (getBucketStart now w)) evs)) d)
         [] WINDOW_SIZES
     = delta_payload s now evs"
  by (simp add: delta_payload_def WINDOW_SIZES_def window_keys)

lemma upserts_succeed_iff:
  "upserts_succeed w_io = list_all (\<lambda>w. \<not> updateOne_fails w_io w) WINDOW_SIZES"
  by (simp add: upserts_succeed_def)

lemma distinct_WINDOW_SIZES: "distinct WINDOW_SIZES"
  by (simp add: WINDOW_SIZES_def)

lemma active_entry_eventsCol [simp]: "active_entry (s\<lparr>eventsCol := c\<rparr>) w b = active_entry s w b"
  by (simp add: active_entry_def)

lemma delta_payload_eventsCol [simp]: "delta_payload (s\<lparr>eventsCol := c\<rparr>) now evs = delta_payload s now evs"
  by (simp add: delta_payload_def)

text \<open>A call none of whose upserts is rejected.\<close>

lemma handleEvents_success:
  assumes ne: "evs \<noteq> []" and ok: "upserts_succeed w_io"
  shows "fst (handleEvents w_io now evs s) = Inr ()"
    and "memoryWindows (snd (handleEvents w_io now evs s)) w b
           = (if w \<in> set WINDOW_SIZES \<and> b = getBucketStart now w
              then Some (foldl add_event (active_entry s w b) evs)
              else memoryWindows s w b)"
    and "wire (snd (handleEvents w_io now evs s))
           = wire s @ map (\<lambda>ws. (ws, agg_delta (delta_payload s now evs)))
                        (receivers w_io s ''dashboard:global'')"
    and "eventsCol (snd (handleEvents w_io now evs s))
           = (if insertMany_fails w_io then eventsCol s else insertMany (eventId_unique s) evs (eventsCol s))"
proof -
  obtain c where h: "handleEvents w_io now evs s =
           (case windows_loop w_io now evs WINDOW_SIZES [] (s\<lparr>eventsCol := c\<rparr>) of
              (Inl err, s2) \<Rightarrow> (Inl err, s2)
            | (Inr deltas, s2) \<Rightarrow>
                (Inr (), broadcast (socket w_io) ''dashboard:global'' (agg_delta deltas) s2))"
    and c: "c = (if insertMany_fails w_io then eventsCol s else insertMany (eventId_unique s) evs (eventsCol s))"
    using handleEvents_unfold [OF ne] by blast
  let ?t = "s\<lparr>eventsCol := c\<rparr>"
  obtain r s2 where eq: "windows_loop w_io now evs WINDOW_SIZES [] ?t = (r, s2)"
    by (cases "windows_loop w_io now evs WINDOW_SIZES [] ?t")
  have suc: "r = Inr (delta_payload s now evs)"
    and mem: "\<And>w b. memoryWindows s2 w b
              = (if w \<in> set WINDOW_SIZES \<and> b = getBucketStart now w
                 then Some (foldl add_event (active_entry s w b) evs)
                 else memoryWindows s w b)"
    using windows_loop_success [OF ok [unfolded upserts_succeed_iff] distinct_WINDOW_SIZES,
        of now evs "[]" ?t] eq
    by (simp_all add: delta_payload_fold)
  have w2: "wire s2 = wire s" and t2: "topicToSockets s2 = topicToSockets s"
    and e2: "eventsCol s2 = c"
    using windows_loop_wire [of w_io now evs WINDOW_SIZES "[]" ?t]
          windows_loop_topics [of w_io now evs WINDOW_SIZES "[]" ?t]
          windows_loop_eventsCol [of w_io now evs WINDOW_SIZES "[]" ?t] eq
    by simp_all
  have res: "handleEvents w_io now evs s
       = (Inr (), broadcast (socket w_io) ''dashboard:global'' (agg_delta (delta_payload s now evs)) s2)"
    using h eq suc by simp
  show "fst (handleEvents w_io now evs s) = Inr ()" using res by simp
  show "memoryWindows (snd (handleEvents w_io now evs s)) w b
           = (if w \<in> set WINDOW_SIZES \<and> b = getBucketStart now w
              then Some (foldl add_event (active_entry s w b) evs)
              else memoryWindows s w b)"
    using res mem by simp
  show "wire (snd (handleEvents w_io now evs s))
           = wire s @ map (\<lambda>ws. (ws, agg_delta (delta_payload s now evs)))
                        (receivers w_io s ''dashboard:global'')"
    using res w2 t2 by (simp add: wire_broadcast receivers_def)
  show "eventsCol (snd (handleEvents w_io now evs s))
           = (if insertMany_fails w_io then eventsCol s else insertMany (eventId_unique s) evs (eventsCol s))"
    using res e2 c by simp
qed

lemma handleEvents_other_buckets:
  "b \<noteq> getBucketStart now w \<Longrightarrow>
   memoryWindows (snd (handleEvents w_io now evs s)) w b = memoryWindows s w b"
  by (simp add: handleEvents_memory windows_loop_other_buckets)

lemma handleEvents_ts_blind:
  assumes "map (\<lambda>ev. ev\<lparr>ts := 0\<rparr>) evs' = map (\<lambda>ev. ev\<lparr>ts := 0\<rparr>) evs"
  shows "memoryWindows (snd (handleEvents w_io now evs' s)) = memoryWindows (snd (handleEvents w_io now evs s))"
proof -
  have f: "foldl add_event e evs' = foldl add_event e evs" for e
    using foldl_add_event_ts [of e evs] foldl_add_event_ts [of e evs'] assms by simp
  have l: "length evs' = length evs" using assms by (metis length_map)
  have k: "length (filter (\<lambda>ev. action ev = ''error'') evs')
             = length (filter (\<lambda>ev. action ev = ''error'') evs)"
    using errors_filter_ts [of evs] errors_filter_ts [of evs'] assms by simp
  have e: "(evs' = []) = (evs = [])" using l by auto
  show ?thesis
    using windows_loop_agree [of evs' evs s s w_io now WINDOW_SIZES "[]", OF f l k] e
    by (simp add: handleEvents_memory)
qed

text \<open>
  C9. The bucket start is the floor of the receipt time over the window length, times the
  window length. A call of \<^verbatim>\<open>handleEvents\<close> at receipt time \<open>now\<close> leaves every bucket
  of window \<open>w\<close> other than the one that starts there as it was; when no upsert is rejected,
  the bucket that starts there is, for each of the three windows, the former one (or a new
  one) with the whole batch added. Two batches that differ only in the \<^verbatim>\<open>ts\<close> fields of
  their events leave the same buckets.
\<close>

theorem bucket_assignment:
  "getBucketStart now w = \<lfloor>real_of_int now / real_of_int (w * 1000)\<rfloor> * (w * 1000)
   \<and> (b \<noteq> getBucketStart now w \<longrightarrow>
        memoryWindows (snd (handleEvents w_io now evs s)) w b = memoryWindows s w b)
   \<and> (evs \<noteq> [] \<and> upserts_succeed w_io \<and> w \<in> set WINDOW_SIZES \<longrightarrow>
        memoryWindows (snd (handleEvents w_io now evs s)) w (getBucketStart now w)
          = Some (foldl add_event (active_entry s w (getBucketStart now w)) evs))
   \<and> (map (\<lambda>ev. ev\<lparr>ts := 0\<rparr>) evs' = map (\<lambda>ev. ev\<lparr>ts := 0\<rparr>) evs \<longrightarrow>
        memoryWindows (snd (handleEvents w_io now evs' s))
          = memoryWindows (snd (handleEvents w_io now evs s)))"
  using getBucketStart_floor [of now w] handleEvents_other_buckets [of b now w w_io evs s]
    handleEvents_success(2) [of evs w_io now s w "getBucketStart now w"]
    handleEvents_ts_blind [of evs' evs w_io now s]
  by simp


theorem bucket_assignment_witness:
  "(0 \<noteq> getBucketStart 1700000000000 60
    \<and> memoryWindows (snd (handleEvents calm_io 1700000000000 [sample_event] init_server)) 60 0
        = memoryWindows init_server 60 0)
   \<and> ([sample_event] \<noteq> [] \<and> upserts_succeed calm_io \<and> 60 \<in> set WINDOW_SIZES
      \<and> memoryWindows (snd (handleEvents calm_io 1700000000000 [sample_event] init_server)) 60
           (getBucketStart 1700000000000 60)
         = Some (foldl add_event (active_entry init_server 60 (getBucketStart 1700000000000 60))
                   [sample_event]))
   \<and> (map (\<lambda>ev. ev\<lparr>ts := 0\<rparr>) [sample_event\<lparr>ts := 5\<rparr>] = map (\<lambda>ev. ev\<lparr>ts := 0\<rparr>) [sample_event]
      \<and> memoryWindows (snd (handleEvents calm_io 1700000000000 [sample_event\<lparr>ts := 5\<rparr>] init_server))
         = memoryWindows (snd (handleEvents calm_io 1700000000000 [sample_event] init_server)))"
proof -
  have h1: "0 \<noteq> getBucketStart 1700000000000 60"
    by (simp add: getBucketStart_def)
  have h2: "[sample_event] \<noteq> [] \<and> upserts_succeed calm_io \<and> 60 \<in> set WINDOW_SIZES"
    by (simp add: upserts_succeed_def calm_io_def WINDOW_SIZES_def)
  have h3: "map (\<lambda>ev. ev\<lparr>ts := 0\<rparr>) [sample_event\<lparr>ts := 5\<rparr>] = map (\<lambda>ev. ev\<lparr>ts := 0\<rparr>) [sample_event]"
    by simp
  show ?thesis
    using h1 h2 h3
      bucket_assignment [of 1700000000000 60 0 calm_io "[sample_event]" init_server
        "[sample_event\<lparr>ts := 5\<rparr>]"]
    by blast
qed

subsection \<open>Start-up and the unique index\<close>

lemma tc_new:
  "\<not> createIndex_fails b name \<Longrightarrow> map_of idx name = None \<Longrightarrow>
   \<not> list_ex (\<lambda>(n, i). key_fields i = key_fields spec) idx \<Longrightarrow> \<not> (unique spec \<and> d) \<Longrightarrow>
   try_createIndex b name spec d idx = idx @ [(name, spec)]"
  by (simp add: try_createIndex_def createIndex_def)

lemma started: "ensureIndexes calm_boot 7 init_server = Inr started_server"
proof -
  have f: "\<not> createIndex_fails calm_boot name" for name by (simp add: calm_boot_def)
  have g: "\<not> indexes_fails calm_boot" by (simp add: calm_boot_def)
  have "ensureIndexes calm_boot 7 init_server
          = Inr (init_server\<lparr>eventsIdx := eventsIdx started_server, aggIdx := aggIdx started_server\<rparr>)"
    unfolding ensureIndexes_def Let_def
    by (simp add: tc_new [OF f] g init_server_def started_server_def)
  then show ?thesis by (simp add: started_server_def init_server_def)
qed


lemma started_unique: "eventId_unique started_server"
  by (simp add: eventId_unique_def started_server_def init_server_def)

lemma map_of_drop:
  "map_of (filter (\<lambda>(n, i). n \<noteq> x) idx) k = (if k = x then None else map_of idx k)"
  by (induction idx) auto

lemma list_ex_drop:
  "list_ex P (filter Q idx) \<Longrightarrow> list_ex P idx"
  by (auto simp: list_ex_iff)

lemma available_drop:
  assumes "eventId_1_available idx"
  shows "eventId_1_available (try_dropIndex b ''ts_1'' idx)"
proof (cases "try_dropIndex b ''ts_1'' idx = idx")
  case True
  then show ?thesis using assms by simp
next
  case False
  then have e: "try_dropIndex b ''ts_1'' idx = filter (\<lambda>(n, i). n \<noteq> ''ts_1'') idx"
    by (simp add: try_dropIndex_def dropIndex_def split: if_splits)
  have m: "map_of (filter (\<lambda>(n, i). n \<noteq> ''ts_1'') idx) ''eventId_1'' = map_of idx ''eventId_1''"
    by (simp add: map_of_drop)
  show ?thesis
    using assms list_ex_drop [of "\<lambda>(n, i). key_fields i = [''eventId'']" "\<lambda>(n, i). n \<noteq> ''ts_1''" idx]
    unfolding e eventId_1_available_def m by blast
qed


lemma try_createIndex_cases:
  "try_createIndex b name spec d idx = idx \<or> try_createIndex b name spec d idx = idx @ [(name, spec)]"
  by (simp add: try_createIndex_def createIndex_def split: option.splits)

lemma available_create:
  assumes "eventId_1_available idx" and "name \<noteq> ''eventId_1''"
      and "key_fields spec \<noteq> [''eventId'']"
  shows "eventId_1_available (try_createIndex b name spec d idx)"
proof (cases "try_createIndex b name spec d idx = idx")
  case True
  then show ?thesis using assms(1) by simp
next
  case False
  then have e: "try_createIndex b name spec d idx = idx @ [(name, spec)]"
    using try_createIndex_cases [of b name spec d idx] by blast
  have m: "map_of (idx @ [(name, spec)]) ''eventId_1'' = map_of idx ''eventId_1''"
    using assms(2) by (simp add: map_add_def split: option.splits)
  have l: "list_ex (\<lambda>(n, i). key_fields i = [''eventId'']) (idx @ [(name, spec)])
             = list_ex (\<lambda>(n, i). key_fields i = [''eventId'']) idx"
    using assms(3) by (simp add: list_ex_iff)
  show ?thesis
    using assms(1) unfolding e eventId_1_available_def m l .
qed

lemma create_unique:
  assumes "eventId_1_available idx" and "\<not> createIndex_fails b ''eventId_1''" and "\<not> d"
  shows "list_ex (\<lambda>(n, i). unique i \<and> key_fields i = [''eventId''])
           (try_createIndex b ''eventId_1''
              \<lparr>key_fields = [''eventId''], expireAfterSeconds = None, unique = True\<rparr> d idx)"
proof (cases "map_of idx ''eventId_1''")
  case None
  then have "\<not> list_ex (\<lambda>(n, i). key_fields i = [''eventId'']) idx"
    using assms(1) by (simp add: eventId_1_available_def)
  then have "try_createIndex b ''eventId_1''
              \<lparr>key_fields = [''eventId''], expireAfterSeconds = None, unique = True\<rparr> d idx
             = idx @ [(''eventId_1'',
                 \<lparr>key_fields = [''eventId''], expireAfterSeconds = None, unique = True\<rparr>)]"
    using None assms(2,3) by (simp add: try_createIndex_def createIndex_def)
  then show ?thesis by simp
next
  case (Some i)
  then have i: "i = \<lparr>key_fields = [''eventId''], expireAfterSeconds = None, unique = True\<rparr>"
    using assms(1) by (simp add: eventId_1_available_def)
  have "(''eventId_1'', i) \<in> set idx" using Some by (rule map_of_SomeD)
  then have "\<exists>x \<in> set idx. case x of (n, i) \<Rightarrow> unique i \<and> key_fields i = [''eventId'']"
    using i by (intro bexI [of _ "(''eventId_1'', i)"]) simp_all
  then have l: "list_ex (\<lambda>(n, i). unique i \<and> key_fields i = [''eventId'']) idx"
    by (simp add: list_ex_iff)
  have "try_createIndex b ''eventId_1''
              \<lparr>key_fields = [''eventId''], expireAfterSeconds = None, unique = True\<rparr> d idx = idx"
    using Some i assms(2) by (simp add: try_createIndex_def createIndex_def)
  then show ?thesis using l by simp
qed


lemma ensureIndexes_unique:
  assumes "\<not> indexes_fails b" and "\<not> createIndex_fails b ''eventId_1''"
      and "distinct (map eventId (eventsCol s))" and "eventId_1_available (eventsIdx s)"
  shows "\<exists>s'. ensureIndexes b days s = Inr s' \<and> eventId_unique s'
              \<and> eventsCol s' = eventsCol s \<and> memoryWindows s' = memoryWindows s"
proof -
  define i0 where "i0 = (case map_of (eventsIdx s) ''ts_1'' of
                    None \<Rightarrow> eventsIdx s
                  | Some tsExisting \<Rightarrow>
                      if expireAfterSeconds tsExisting \<noteq> Some (days * 86400)
                      then try_dropIndex b ''ts_1'' (eventsIdx s) else eventsIdx s)"
  define i4 where "i4 = try_createIndex b ''route_1''
                   \<lparr>key_fields = [''route''], expireAfterSeconds = None, unique = False\<rparr> False
              (try_createIndex b ''userId_1''
                   \<lparr>key_fields = [''userId''], expireAfterSeconds = None, unique = False\<rparr> False
              (try_createIndex b ''sessionId_1''
                   \<lparr>key_fields = [''sessionId''], expireAfterSeconds = None, unique = False\<rparr> False
              (try_createIndex b ''ts_1''
                   \<lparr>key_fields = [''ts''], expireAfterSeconds = Some (days * 86400), unique = False\<rparr>
                   False i0)))"
  define i5 where "i5 = try_createIndex b ''eventId_1''
              \<lparr>key_fields = [''eventId''], expireAfterSeconds = None, unique = True\<rparr>
              (\<not> distinct (map eventId (eventsCol s))) i4"
  define a1 where "a1 = try_createIndex b ''window_bucketStart_1''
                   \<lparr>key_fields = [''window'', ''bucketStart''], expireAfterSeconds = None,
                    unique = False\<rparr>
                   False (aggIdx s)"
  have a0: "eventId_1_available i0"
    unfolding i0_def using assms(4) by (simp add: available_drop split: option.splits)
  have a4: "eventId_1_available i4"
    unfolding i4_def by (intro available_create a0) simp_all
  have u: "list_ex (\<lambda>(n, i). unique i \<and> key_fields i = [''eventId'']) i5"
    unfolding i5_def using assms(3) by (intro create_unique a4 assms(2)) simp
  have e: "ensureIndexes b days s = Inr (s\<lparr>eventsIdx := i5, aggIdx := a1\<rparr>)"
    unfolding ensureIndexes_def Let_def i5_def i4_def i0_def a1_def
    using assms(1) by (simp only: if_False)
  show ?thesis
    unfolding e using u by (simp add: eventId_unique_def)
qed

text \<open>Where the creation of the unique index is rejected the server starts all the same.\<close>

lemma started_without_index:
  "ensureIndexes no_unique_boot 7 init_server
     = Inr (started_server\<lparr>eventsIdx := butlast (eventsIdx started_server)\<rparr>)"
proof -
  have f: "\<not> createIndex_fails no_unique_boot name" if "name \<noteq> ''eventId_1''" for name
    using that by (simp add: no_unique_boot_def calm_boot_def)
  have g: "\<not> indexes_fails no_unique_boot" by (simp add: no_unique_boot_def calm_boot_def)
  have h: "try_createIndex no_unique_boot ''eventId_1'' spec d idx = idx" for spec d idx
    by (simp add: try_createIndex_def no_unique_boot_def)
  have "ensureIndexes no_unique_boot 7 init_server
          = Inr (init_server\<lparr>eventsIdx := butlast (eventsIdx started_server),
                              aggIdx := aggIdx started_server\<rparr>)"
    unfolding ensureIndexes_def Let_def
    by (simp add: tc_new [OF f] g h init_server_def started_server_def)
  then show ?thesis by (simp add: started_server_def init_server_def)
qed

subsection \<open>Duplicate submissions\<close>

lemma ids_insert_doc:
  "eventId ` set (insert_doc uniq col d) = insert (eventId d) (eventId ` set col)"
  by (auto simp: insert_doc_def)

lemma distinct_insert_doc:
  "distinct (map eventId col) \<Longrightarrow> distinct (map eventId (insert_doc True col d))"
  by (simp add: insert_doc_def)

lemma ids_insertMany:
  "eventId ` set (insertMany uniq docs col) = eventId ` set docs \<union> eventId ` set col"
  unfolding insertMany_def
  by (induction docs arbitrary: col) (auto simp: ids_insert_doc)

lemma distinct_insertMany:
  "distinct (map eventId col) \<Longrightarrow> distinct (map eventId (insertMany True docs col))"
  unfolding insertMany_def
  by (induction docs arbitrary: col) (simp_all add: distinct_insert_doc)

lemma one_document:
  "distinct (map eventId col) \<Longrightarrow> i \<in> eventId ` set col \<Longrightarrow>
   length (filter (\<lambda>d. eventId d = i) col) = 1"
proof (induction col)
  case Nil
  then show ?case by simp
next
  case (Cons d col)
  show ?case
  proof (cases "eventId d = i")
    case True
    have "eventId d \<notin> eventId ` set col" using Cons.prems(1) by simp
    then have "\<forall>x \<in> set col. eventId x \<noteq> i" using True by (metis imageI)
    then have "filter (\<lambda>d. eventId d = i) col = []"
      by (simp add: filter_empty_conv)
    then show ?thesis using True by simp
  next
    case False
    then show ?thesis using Cons by auto
  qed
qed

lemma windows_loop_eventsIdx [simp]:
  "eventsIdx (snd (windows_loop w_io now evs ws deltas s)) = eventsIdx s"
  by (induction ws arbitrary: deltas s) (simp_all add: Let_def)

lemma eventsIdx_broadcast [simp]: "eventsIdx (broadcast sock topic f s) = eventsIdx s"
proof -
  have "eventsIdx (foldl (\<lambda>s' ws. if can_send (sock ws) then sendJson ws f s' else s') s l)
          = eventsIdx s" for l
    by (induction l arbitrary: s) (simp_all add: sendJson_def)
  then show ?thesis by (simp add: broadcast_def split: option.splits)
qed

lemma handleEvents_eventsCol:
  "eventsCol (snd (handleEvents w_io now evs s))
     = (if evs = [] \<or> insertMany_fails w_io then eventsCol s
        else insertMany (eventId_unique s) evs (eventsCol s))"
  and handleEvents_eventsIdx: "eventsIdx (snd (handleEvents w_io now evs s)) = eventsIdx s"
proof -
  have "eventsCol (snd (handleEvents w_io now evs s))
     = (if evs = [] \<or> insertMany_fails w_io then eventsCol s
        else insertMany (eventId_unique s) evs (eventsCol s))
    \<and> eventsIdx (snd (handleEvents w_io now evs s)) = eventsIdx s"
  proof (cases "evs = []")
    case True
    then show ?thesis by (simp add: handleEvents_def)
  next
    case False
    obtain c where h: "handleEvents w_io now evs s =
             (case windows_loop w_io now evs WINDOW_SIZES [] (s\<lparr>eventsCol := c\<rparr>) of
                (Inl err, s2) \<Rightarrow> (Inl err, s2)
              | (Inr deltas, s2) \<Rightarrow>
                  (Inr (), broadcast (socket w_io) ''dashboard:global'' (agg_delta deltas) s2))"
      and c: "c = (if insertMany_fails w_io then eventsCol s
                   else insertMany (eventId_unique s) evs (eventsCol s))"
      using handleEvents_unfold [OF False] by blast
    obtain r s2 where eq: "windows_loop w_io now evs WINDOW_SIZES [] (s\<lparr>eventsCol := c\<rparr>) = (r, s2)"
      by (cases "windows_loop w_io now evs WINDOW_SIZES [] (s\<lparr>eventsCol := c\<rparr>)")
    have "eventsCol s2 = c" and "eventsIdx s2 = eventsIdx s"
      using windows_loop_eventsCol [of w_io now evs WINDOW_SIZES "[]" "s\<lparr>eventsCol := c\<rparr>"]
            windows_loop_eventsIdx [of w_io now evs WINDOW_SIZES "[]" "s\<lparr>eventsCol := c\<rparr>"] eq
      by simp_all
    then show ?thesis using False h eq c by (cases r) simp_all
  qed
  then show "eventsCol (snd (handleEvents w_io now evs s))
     = (if evs = [] \<or> insertMany_fails w_io then eventsCol s
        else insertMany (eventId_unique s) evs (eventsCol s))"
    and "eventsIdx (snd (handleEvents w_io now evs s)) = eventsIdx s"
    by simp_all
qed

lemma handleEvents_unique: "eventId_unique (snd (handleEvents w_io now evs s)) = eventId_unique s"
  by (simp add: eventId_unique_def handleEvents_eventsIdx)

lemma count_foldl_add_event: "count (foldl add_event e evs) = count e + length evs"
  by (induction evs arbitrary: e) (simp_all add: count_add_event)

lemma handleEvents_bucket_count:
  assumes "upserts_succeed w_io" and "w \<in> set WINDOW_SIZES"
  shows "bucket_count (snd (handleEvents w_io now evs s)) w b
           = bucket_count s w b + (if getBucketStart now w = b then length evs else 0)"
proof (cases "evs = []")
  case True
  then show ?thesis by (simp add: handleEvents_def)
next
  case False
  show ?thesis
    using handleEvents_success(2) [OF False assms(1), of now s w b] assms(2)
    by (auto simp: bucket_count_def count_foldl_add_event active_entry_def new_entry_def
        split: option.splits)
qed

lemma resubmit_Nil [simp]: "resubmit [] evs s = s"
  by (simp add: resubmit_def run_def)

lemma resubmit_Cons [simp]:
  "resubmit ((w_io, now) # xs) evs s = resubmit xs evs (snd (handleEvents w_io now evs s))"
  by (simp add: resubmit_def run_def)

lemma resubmit_unique: "eventId_unique (resubmit xs evs s) = eventId_unique s"
proof (induction xs arbitrary: s)
  case Nil
  then show ?case by simp
next
  case (Cons x xs)
  obtain w_io now where x: "x = (w_io, now)" by (cases x)
  show ?case using Cons.IH [of "snd (handleEvents w_io now evs s)"] x
    by (simp add: handleEvents_unique)
qed

lemma resubmit_distinct:
  assumes "eventId_unique s" and "distinct (map eventId (eventsCol s))"
  shows "distinct (map eventId (eventsCol (resubmit xs evs s)))"
  using assms
proof (induction xs arbitrary: s)
  case Nil
  then show ?case by simp
next
  case (Cons x xs)
  obtain w_io now where x: "x = (w_io, now)" by (cases x)
  have "distinct (map eventId (eventsCol (snd (handleEvents w_io now evs s))))"
    using Cons.prems by (simp add: handleEvents_eventsCol distinct_insertMany)
  moreover have "eventId_unique (snd (handleEvents w_io now evs s))"
    using Cons.prems(1) by (simp add: handleEvents_unique)
  ultimately show ?case using Cons.IH x by simp
qed

lemma resubmit_ids_mono:
  "eventId ` set (eventsCol s) \<subseteq> eventId ` set (eventsCol (resubmit xs evs s))"
proof (induction xs arbitrary: s)
  case Nil
  then show ?case by simp
next
  case (Cons x xs)
  obtain w_io now where x: "x = (w_io, now)" by (cases x)
  have "eventId ` set (eventsCol s) \<subseteq> eventId ` set (eventsCol (snd (handleEvents w_io now evs s)))"
    by (auto simp: handleEvents_eventsCol ids_insertMany)
  then show ?case using Cons.IH [of "snd (handleEvents w_io now evs s)"] x by auto
qed

lemma resubmit_stores:
  assumes "list_ex (\<lambda>(w_io, now). \<not> insertMany_fails w_io) xs"
  shows "eventId ` set evs \<subseteq> eventId ` set (eventsCol (resubmit xs evs s))"
  using assms
proof (induction xs arbitrary: s)
  case Nil
  then show ?case by simp
next
  case (Cons x xs)
  obtain w_io now where x: "x = (w_io, now)" by (cases x)
  show ?case
  proof (cases "insertMany_fails w_io")
    case True
    then have "list_ex (\<lambda>(w_io, now). \<not> insertMany_fails w_io) xs" using Cons.prems x by simp
    then show ?thesis using Cons.IH [of "snd (handleEvents w_io now evs s)"] x by simp
  next
    case False
    then have "eventId ` set evs \<subseteq> eventId ` set (eventsCol (snd (handleEvents w_io now evs s)))"
      by (auto simp: handleEvents_eventsCol ids_insertMany)
    then show ?thesis
      using resubmit_ids_mono [of "snd (handleEvents w_io now evs s)" xs evs] x by auto
  qed
qed

lemma resubmit_bucket_count:
  assumes "list_all (\<lambda>(w_io, now). upserts_succeed w_io) xs" and "w \<in> set WINDOW_SIZES"
  shows "bucket_count (resubmit xs evs s) w b
           = bucket_count s w b
             + length (filter (\<lambda>(w_io, now). getBucketStart now w = b) xs) * length evs"
  using assms(1)
proof (induction xs arbitrary: s)
  case Nil
  then show ?case by simp
next
  case (Cons x xs)
  obtain w_io now where x: "x = (w_io, now)" by (cases x)
  have ok: "upserts_succeed w_io" and rest: "list_all (\<lambda>(w_io, now). upserts_succeed w_io) xs"
    using Cons.prems x by simp_all
  show ?case
    using Cons.IH [OF rest, of "snd (handleEvents w_io now evs s)"]
      handleEvents_bucket_count [OF ok assms(2), of now evs s b] x
    by simp
qed

text \<open>
  C6 (as amended). Let the raw-event collection have its unique index over \<^verbatim>\<open>eventId\<close>
  and hold no \<^verbatim>\<open>eventId\<close> twice, and let one batch \<open>evs\<close>, which may repeat an
  \<^verbatim>\<open>eventId\<close> any number of times, be submitted once per element of \<open>xs\<close>. Then the
  collection never holds an \<^verbatim>\<open>eventId\<close> twice, and it holds each \<^verbatim>\<open>eventId\<close> of the
  batch exactly once as soon as the insert of one submission is not rejected. In memory
  every submission counts in full when no aggregate upsert is rejected: the count of the
  bucket of window \<open>w\<close> at \<open>b\<close> has grown by the size of the batch for each submission
  whose receipt time falls into that bucket. The index is there after a start-up on a
  collection without duplicates, provided the listing of the indexes and the creation of
  \<^verbatim>\<open>eventId_1\<close> are not rejected and neither its name nor its key pattern is taken by
  another index.
\<close>

theorem duplicate_submissions:
  assumes "eventId_unique s" and "distinct (map eventId (eventsCol s))"
  shows "distinct (map eventId (eventsCol (resubmit xs evs s)))
       \<and> (list_ex (\<lambda>(w_io, now). \<not> insertMany_fails w_io) xs \<longrightarrow>
            (\<forall>i \<in> eventId ` set evs.
               length (filter (\<lambda>d. eventId d = i) (eventsCol (resubmit xs evs s))) = 1))
       \<and> (list_all (\<lambda>(w_io, now). upserts_succeed w_io) xs \<longrightarrow>
            (\<forall>w \<in> set WINDOW_SIZES. \<forall>b.
               bucket_count (resubmit xs evs s) w b
                 = bucket_count s w b
                   + length (filter (\<lambda>(w_io, now). getBucketStart now w = b) xs) * length evs))
       \<and> (\<not> indexes_fails boot \<and> \<not> createIndex_fails boot ''eventId_1''
            \<and> distinct (map eventId (eventsCol s0)) \<and> eventId_1_available (eventsIdx s0) \<longrightarrow>
            (\<exists>s'. ensureIndexes boot days s0 = Inr s' \<and> eventId_unique s'
                  \<and> eventsCol s' = eventsCol s0 \<and> memoryWindows s' = memoryWindows s0))"
proof -
  have d: "distinct (map eventId (eventsCol (resubmit xs evs s)))"
    using assms by (rule resubmit_distinct)
  have one: "length (filter (\<lambda>d. eventId d = i) (eventsCol (resubmit xs evs s))) = 1"
    if "list_ex (\<lambda>(w_io, now). \<not> insertMany_fails w_io) xs" and "i \<in> eventId ` set evs" for i
    using one_document [OF d] resubmit_stores [OF that(1), of evs s] that(2) by blast
  show ?thesis
    using d one resubmit_bucket_count [of xs _ evs s]
      ensureIndexes_unique [of boot s0 days]
    by blast
qed

theorem duplicate_submissions_witness:
  "eventId_unique started_server
   \<and> distinct (map eventId (eventsCol started_server))
   \<and> list_ex (\<lambda>(w_io, now). \<not> insertMany_fails w_io)
        [(calm_io, 1700000000000), (calm_io, 1700000000500)]
   \<and> eventId sample_event \<in> eventId ` set [sample_event, sample_event]
   \<and> length (filter (\<lambda>d. eventId d = eventId sample_event)
        (eventsCol (resubmit [(calm_io, 1700000000000), (calm_io, 1700000000500)]
           [sample_event, sample_event] started_server))) = 1
   \<and> list_all (\<lambda>(w_io, now). upserts_succeed w_io)
        [(calm_io, 1700000000000), (calm_io, 1700000000500)]
   \<and> 1 \<in> set WINDOW_SIZES
   \<and> bucket_count (resubmit [(calm_io, 1700000000000), (calm_io, 1700000000500)]
        [sample_event, sample_event] started_server) 1 1700000000000 = 4
   \<and> \<not> indexes_fails calm_boot \<and> \<not> createIndex_fails calm_boot ''eventId_1''
   \<and> distinct (map eventId (eventsCol init_server))
   \<and> eventId_1_available (eventsIdx init_server)
   \<and> ensureIndexes calm_boot 7 init_server = Inr started_server"
proof -
  let ?xs = "[(calm_io, 1700000000000), (calm_io, 1700000000500)]"
  have h1: "eventId_unique started_server" by (rule started_unique)
  have h2: "distinct (map eventId (eventsCol started_server))"
    by (simp add: started_server_def init_server_def)
  have h3: "list_ex (\<lambda>(w_io, now). \<not> insertMany_fails w_io) ?xs"
    by (simp add: calm_io_def)
  have h4: "eventId sample_event \<in> eventId ` set [sample_event, sample_event]"
    by simp
  have h5: "list_all (\<lambda>(w_io, now). upserts_succeed w_io) ?xs"
    by (simp add: upserts_succeed_def calm_io_def WINDOW_SIZES_def)
  have h6: "1 \<in> set WINDOW_SIZES"
    by (simp add: WINDOW_SIZES_def)
  have h7: "\<not> indexes_fails calm_boot \<and> \<not> createIndex_fails calm_boot ''eventId_1''
            \<and> distinct (map eventId (eventsCol init_server))
            \<and> eventId_1_available (eventsIdx init_server)"
    by (simp add: calm_boot_def init_server_def eventId_1_available_def)
  have b: "bucket_count started_server 1 1700000000000
             + length (filter (\<lambda>(w_io, now). getBucketStart now 1 = 1700000000000) ?xs)
               * length [sample_event, sample_event] = 4"
    by (simp add: bucket_count_def started_server_def init_server_def getBucketStart_def)
  show ?thesis
    using h1 h2 h3 h4 h5 h6 h7 b started
      duplicate_submissions [OF h1 h2, of ?xs "[sample_event, sample_event]" calm_boot
        init_server 7]
    by metis
qed

theorem duplicate_submissions_counterexample:
  "eventId_unique started_server
   \<and> eventsCol (resubmit [(mongo_down_io, 1700000000000), (mongo_down_io, 1700000000500)]
        [sample_event, sample_event] started_server) = []
   \<and> bucket_count (resubmit [(mongo_down_io, 1700000000000), (mongo_down_io, 1700000000500)]
        [sample_event, sample_event] started_server) 5 1700000000000 = 0"
proof -
  have f: "insertMany_fails mongo_down_io" by (simp add: mongo_down_io_def)
  have c: "eventsCol (snd (handleEvents mongo_down_io now evs s)) = eventsCol s" for now evs s
    using f by (simp add: handleEvents_eventsCol)
  have m: "memoryWindows (snd (handleEvents mongo_down_io now evs s)) 5 b = memoryWindows s 5 b"
    for now evs s b
    by (simp add: handleEvents_memory WINDOW_SIZES_def mongo_down_io_def Let_def)
  have "eventsCol started_server = []" and "memoryWindows started_server 5 1700000000000 = None"
    by (simp_all add: started_server_def init_server_def)
  then show ?thesis
    using started_unique by (simp add: c m bucket_count_def)
qed

text \<open>Without the unique index a batch that repeats an event is stored in full.\<close>

lemma stored_twice_without_index:
  "eventsCol (resubmit [(calm_io, 1700000000000)] [sample_event, sample_event]
      (started_server\<lparr>eventsIdx := butlast (eventsIdx started_server)\<rparr>))
     = [sample_event, sample_event]"
  by (simp add: handleEvents_eventsCol calm_io_def eventId_unique_def started_server_def
      init_server_def insertMany_def insert_doc_def)

section \<open>Properties of the request endpoint\<close>

lemma guid_sample: "joi_guid_uuidv4 ''123e4567-e89b-42d3-a456-426614174000''"
  by (simp add: joi_guid_uuidv4_def opt_one_of_def hexes_def is_hex_def one_of_def opt_same_def guidBrackets_def)

lemma guid_A: "\<not> joi_guid_uuidv4 ''A''"
  by (simp add: joi_guid_uuidv4_def opt_one_of_def hexes_def)

lemma validate_sample:
  "eventSchema_validate cv (withDefaults (sample_record ''123e4567-e89b-42d3-a456-426614174000'')) = Some sample_event"
  by (simp add: eventSchema_validate_def withDefaults_def sample_record_def sample_event_def
      eventSchema_keys_def joi_string_guid_def joi_string_def guid_sample joi_number_integer_min0_def
      MAX_SAFE_INTEGER_def joi_object_unknown_def clone_own_def clone_get_def)

lemma validate_A:
  "eventSchema_validate cv (withDefaults (sample_record ''A'')) = None"
  by (simp add: eventSchema_validate_def withDefaults_def sample_record_def
      eventSchema_keys_def joi_string_guid_def joi_string_def guid_A clone_own_def clone_get_def)

text \<open>
  A \<^verbatim>\<open>__proto__\<close> key is no unknown key, and what it holds is read where the record
  itself has no such key.
\<close>

lemma proto_key_passes:
  "eventSchema_validate cv (withDefaults
     (JObj [(''__proto__'', JObj [(''action'', JStr ''view''), (''extra'', JNull)]),
            (''eventId'', JStr ''123e4567-e89b-42d3-a456-426614174000''), (''ts'', JNum 1000),
            (''userId'', JStr ''u1''), (''sessionId'', JStr ''s1''), (''route'', JStr ''/'')]))
     = Some sample_event"
  by (simp add: eventSchema_validate_def withDefaults_def sample_event_def
      eventSchema_keys_def joi_string_guid_def joi_string_def guid_sample joi_number_integer_min0_def
      MAX_SAFE_INTEGER_def joi_object_unknown_def clone_own_def clone_get_def)

lemma validated_ids:
  "eventSchema_validate cv obj = Some e \<Longrightarrow> joi_guid_uuidv4 (eventId e)"
  by (auto simp: eventSchema_validate_def joi_string_guid_def
      split: if_splits option.splits Option.bind_splits)

lemma validate_loop_acc:
  "validate_loop cv es valid
     = valid @ List.map_filter (\<lambda>e. eventSchema_validate cv (withDefaults e)) es"
  by (induction es arbitrary: valid) (auto simp: List.map_filter_simps split: option.splits)

lemma length_validate_loop:
  "length (validate_loop cv es []) = length (filter (passes cv) es)"
proof -
  have "passes cv = (\<lambda>x. \<exists>y. eventSchema_validate cv (withDefaults x) = Some y)"
    by (auto simp: passes_def fun_eq_iff)
  then show ?thesis
    by (simp add: validate_loop_acc List.map_filter_def)
qed

lemma validate_loop_empty:
  "(validate_loop cv es [] = []) = (filter (passes cv) es = [])"
  using length_validate_loop [of cv es] by (metis length_0_conv)

lemma ingest_empty:
  "payload_empty payload \<Longrightarrow>
   ingest cv w_io now payload s = (Inr (400, JObj [(''error'', JStr ''empty payload'')]), s)"
  by (simp add: ingest_def payload_empty_def)

lemma ingest_events:
  "\<not> payload_empty payload \<Longrightarrow>
   (case payload of Some (JArr xs) \<Rightarrow> xs | Some p \<Rightarrow> [p] | None \<Rightarrow> []) = records payload"
  by (auto simp: records_def split: option.splits json.splits)

lemma ingest_none_valid:
  assumes "\<not> payload_empty payload" and "filter (passes cv) (records payload) = []"
  shows "ingest cv w_io now payload s = (Inr (400, JObj [(''error'', JStr ''no valid events'')]), s)"
proof -
  have "validate_loop cv (records payload) [] = []"
    using assms(2) by (simp add: validate_loop_empty)
  then show ?thesis
    using assms(1) ingest_events [OF assms(1)]
    by (simp add: ingest_def payload_empty_def [symmetric] Let_def)
qed

lemma ingest_valid:
  assumes "\<not> payload_empty payload" and "filter (passes cv) (records payload) \<noteq> []"
  shows "ingest cv w_io now payload s
           = (case handleEvents w_io now (validate_loop cv (records payload) []) s of
                (Inl err, s') \<Rightarrow> (Inl err, s')
              | (Inr u, s') \<Rightarrow>
                  (Inr (200, JObj [(''accepted'',
                     JNum (of_nat (length (filter (passes cv) (records payload)))))]), s'))"
proof -
  have "validate_loop cv (records payload) [] \<noteq> []"
    using assms(2) by (simp add: validate_loop_empty)
  then show ?thesis
    using assms(1) ingest_events [OF assms(1)]
    by (simp add: ingest_def payload_empty_def [symmetric] Let_def length_validate_loop
        split: prod.splits sum.splits)
qed

lemma ingest_accepted:
  assumes "\<not> payload_empty payload" and "filter (passes cv) (records payload) \<noteq> []"
      and "upserts_succeed w_io"
  shows "ingest cv w_io now payload s
           = (Inr (200, JObj [(''accepted'',
                 JNum (of_nat (length (filter (passes cv) (records payload)))))]),
              snd (handleEvents w_io now (validate_loop cv (records payload) []) s))"
proof -
  have ne: "validate_loop cv (records payload) [] \<noteq> []"
    using assms(2) by (simp add: validate_loop_empty)
  obtain r s' where eq: "handleEvents w_io now (validate_loop cv (records payload) []) s = (r, s')"
    by (cases "handleEvents w_io now (validate_loop cv (records payload) []) s")
  have "r = Inr ()" using handleEvents_success(1) [OF ne assms(3), of now s] eq by simp
  then show ?thesis using ingest_valid [OF assms(1,2), of w_io now s] eq by simp
qed

text \<open>
  The answers of \<^verbatim>\<open>POST /ingest\<close> to a request that passes \<^verbatim>\<open>authHttp\<close>: an empty body
  is answered 400 "empty payload"; a body none of whose records passes validation is
  answered 400 "no valid events"; both leave the server as it was. Otherwise, when no
  aggregate upsert is rejected, the answer is \<^verbatim>\<open>{accepted: n}\<close> with \<open>n\<close> the number
  of records that pass validation.
\<close>

lemma ingest_responses:
  assumes "authHttp lib var (authorization req) = Inr decoded"
  shows "(payload_empty (body req) \<longrightarrow>
            post_ingest lib var cv w_io now req s
              = (Inr (400, JObj [(''error'', JStr ''empty payload'')]), s))
       \<and> (\<not> payload_empty (body req) \<and> filter (passes cv) (records (body req)) = [] \<longrightarrow>
            post_ingest lib var cv w_io now req s
              = (Inr (400, JObj [(''error'', JStr ''no valid events'')]), s))
       \<and> (\<not> payload_empty (body req) \<and> filter (passes cv) (records (body req)) \<noteq> []
            \<and> upserts_succeed w_io \<longrightarrow>
            fst (post_ingest lib var cv w_io now req s)
              = Inr (200, JObj [(''accepted'',
                   JNum (of_nat (length (filter (passes cv) (records (body req))))))]))"
  using assms ingest_empty [of "body req" cv w_io now s]
    ingest_none_valid [of "body req" cv w_io now s]
    ingest_accepted [of "body req" cv w_io now s]
  by (simp add: post_ingest_def)

subsection \<open>The sample request\<close>

lemma authHttp_sample:
  "authHttp toy_jwt None (authorization (sample_request b)) = Inr \<lparr>sub = Some ''u1''\<rparr>"
  by (simp add: authHttp_def sample_request_def toy_jwt_def JWT_SECRET_def)

lemma passes_sample: "passes cv (sample_record ''123e4567-e89b-42d3-a456-426614174000'')"
  by (simp add: passes_def validate_sample)

lemma passes_A: "\<not> passes cv (sample_record ''A'')"
  by (simp add: passes_def validate_A)

subsection \<open>Persistence failures\<close>

lemma windows_loop_failure:
  "\<not> list_all (\<lambda>w. \<not> updateOne_fails w_io w) ws \<Longrightarrow>
   fst (windows_loop w_io now evs ws deltas s) = Inl PersistenceError"
  by (induction ws arbitrary: deltas s) (auto simp: Let_def)

text \<open>
  A rejected upsert is not caught: the promise of \<^verbatim>\<open>handleEvents\<close> is rejected and
  nothing is sent.
\<close>

lemma handleEvents_upsert_failure:
  assumes "evs \<noteq> []" and "\<not> upserts_succeed w_io"
  shows "fst (handleEvents w_io now evs s) = Inl PersistenceError"
    and "wire (snd (handleEvents w_io now evs s)) = wire s"
proof -
  obtain c where h: "handleEvents w_io now evs s =
           (case windows_loop w_io now evs WINDOW_SIZES [] (s\<lparr>eventsCol := c\<rparr>) of
              (Inl err, s2) \<Rightarrow> (Inl err, s2)
            | (Inr deltas, s2) \<Rightarrow>
                (Inr (), broadcast (socket w_io) ''dashboard:global'' (agg_delta deltas) s2))"
    using handleEvents_unfold [OF assms(1)] by blast
  let ?t = "s\<lparr>eventsCol := c\<rparr>"
  obtain r s2 where eq: "windows_loop w_io now evs WINDOW_SIZES [] ?t = (r, s2)"
    by (cases "windows_loop w_io now evs WINDOW_SIZES [] ?t")
  have r: "r = Inl PersistenceError"
    using windows_loop_failure [of w_io WINDOW_SIZES now evs "[]" ?t] assms(2) eq
    by (simp add: upserts_succeed_def)
  have w: "wire s2 = wire s"
    using windows_loop_wire [of w_io now evs WINDOW_SIZES "[]" ?t] eq by simp
  show "fst (handleEvents w_io now evs s) = Inl PersistenceError" using h eq r by simp
  show "wire (snd (handleEvents w_io now evs s)) = wire s" using h eq r w by simp
qed

text \<open>
  C2. The authenticated request with one valid event, on a server with socket 7 subscribed
  to the topic, at a moment when MongoDB rejects the aggregate upserts: the handler's
  promise is rejected, so no \<^verbatim>\<open>{accepted: 1}\<close> is written; nothing is sent to the
  subscriber, and the bucket of the 5-second window is not even created. When only the
  raw insert is rejected, the same request is accepted and the subscriber gets its frame.
\<close>

theorem upsert_failure_escapes:
  "receivers upsert_down_io (subscribe 7 ''dashboard:global'' init_server) ''dashboard:global'' = [7]
   \<and> fst (post_ingest toy_jwt None no_convert upsert_down_io 1700000000000
        (sample_request (Some (JArr [sample_record ''123e4567-e89b-42d3-a456-426614174000''])))
        (subscribe 7 ''dashboard:global'' init_server))
       = Inl PersistenceError
   \<and> wire (snd (post_ingest toy_jwt None no_convert upsert_down_io 1700000000000
        (sample_request (Some (JArr [sample_record ''123e4567-e89b-42d3-a456-426614174000''])))
        (subscribe 7 ''dashboard:global'' init_server)))
       = []
   \<and> memoryWindows (snd (post_ingest toy_jwt None no_convert upsert_down_io 1700000000000
        (sample_request (Some (JArr [sample_record ''123e4567-e89b-42d3-a456-426614174000''])))
        (subscribe 7 ''dashboard:global'' init_server))) 5 1700000000000
       = None
   \<and> fst (post_ingest toy_jwt None no_convert insert_down_io 1700000000000
        (sample_request (Some (JArr [sample_record ''123e4567-e89b-42d3-a456-426614174000''])))
        (subscribe 7 ''dashboard:global'' init_server))
       = Inr (200, JObj [(''accepted'', JNum 1)])
   \<and> map fst (wire (snd (post_ingest toy_jwt None no_convert insert_down_io 1700000000000
        (sample_request (Some (JArr [sample_record ''123e4567-e89b-42d3-a456-426614174000''])))
        (subscribe 7 ''dashboard:global'' init_server))))
       = [7]"
proof -
  let ?s = "subscribe 7 ''dashboard:global'' init_server"
  let ?p = "Some (JArr [sample_record ''123e4567-e89b-42d3-a456-426614174000''])"
  have ne: "\<not> payload_empty ?p" by (simp add: payload_empty_def)
  have f: "filter (passes no_convert) (records ?p) \<noteq> []"
    by (simp add: records_def passes_sample)
  have v: "validate_loop no_convert (records ?p) [] = [sample_event]"
    by (simp add: records_def validate_sample)
  have d: "\<not> upserts_succeed upsert_down_io"
    by (simp add: upserts_succeed_def upsert_down_io_def WINDOW_SIZES_def)
  have u: "upserts_succeed insert_down_io"
    by (simp add: upserts_succeed_def insert_down_io_def calm_io_def WINDOW_SIZES_def)
  obtain r s' where eq: "handleEvents upsert_down_io 1700000000000 [sample_event] ?s = (r, s')"
    by (cases "handleEvents upsert_down_io 1700000000000 [sample_event] ?s")
  have r: "r = Inl PersistenceError" and w: "wire s' = wire ?s"
    using handleEvents_upsert_failure [OF _ d, of "[sample_event]" 1700000000000 ?s] eq
    by simp_all
  have m: "memoryWindows s' 5 1700000000000 = None"
  proof -
    have "memoryWindows (snd (handleEvents upsert_down_io 1700000000000 [sample_event] ?s)) 5
            1700000000000 = None"
      by (simp add: handleEvents_memory WINDOW_SIZES_def upsert_down_io_def Let_def
          subscribe_def init_server_def)
    then show ?thesis using eq by simp
  qed
  have i: "ingest no_convert upsert_down_io 1700000000000 ?p ?s = (Inl PersistenceError, s')"
    using ingest_valid [OF ne f, of upsert_down_io 1700000000000 ?s] v eq r by simp
  have rc: "receivers upsert_down_io ?s ''dashboard:global'' = [7]"
    by (simp add: receivers_def subscribe_def init_server_def set_add_def can_send_def
        upsert_down_io_def calm_io_def)
  have rc': "receivers insert_down_io ?s ''dashboard:global'' = [7]"
    by (simp add: receivers_def subscribe_def init_server_def set_add_def can_send_def
        insert_down_io_def calm_io_def)
  have w0: "wire ?s = []"
    by (simp add: subscribe_def init_server_def Let_def)
  have j: "ingest no_convert insert_down_io 1700000000000 ?p ?s
             = (Inr (200, JObj [(''accepted'', JNum 1)]),
                snd (handleEvents insert_down_io 1700000000000 [sample_event] ?s))"
    using ingest_accepted [OF ne f u, of 1700000000000 ?s] v f
    by (simp add: records_def passes_sample)
  have w': "map fst (wire (snd (handleEvents insert_down_io 1700000000000 [sample_event] ?s))) = [7]"
    using handleEvents_success(3) [OF _ u, of "[sample_event]" 1700000000000 ?s] rc' w0
    by (simp add: o_def)
  show ?thesis
    using i j w w' w0 m rc authHttp_sample [of ?p]
    by (simp add: post_ingest_def sample_request_def)
qed


text \<open>
  C8. The authenticated request whose body holds one record that passes validation and
  one that does not, at a moment when MongoDB rejects the aggregate upserts: the body has
  two records and one of them passes, yet the handler's promise is rejected and no
  \<^verbatim>\<open>{accepted: 1}\<close> is written.
\<close>

theorem accepted_not_written:
  "authHttp toy_jwt None (authorization (sample_request (Some (JArr
       [sample_record ''123e4567-e89b-42d3-a456-426614174000'', sample_record ''A'']))))
     = Inr \<lparr>sub = Some ''u1''\<rparr>
   \<and> length (records (body (sample_request (Some (JArr
       [sample_record ''123e4567-e89b-42d3-a456-426614174000'', sample_record ''A''])))))
       = 2
   \<and> length (filter (passes no_convert) (records (body (sample_request (Some (JArr
       [sample_record ''123e4567-e89b-42d3-a456-426614174000'', sample_record ''A'']))))))
       = 1
   \<and> fst (post_ingest toy_jwt None no_convert upsert_down_io 1700000000000
        (sample_request (Some (JArr
           [sample_record ''123e4567-e89b-42d3-a456-426614174000'', sample_record ''A''])))
        init_server)
       = Inl PersistenceError"
proof -
  let ?p = "Some (JArr [sample_record ''123e4567-e89b-42d3-a456-426614174000'', sample_record ''A''])"
  have a: "authHttp toy_jwt None (authorization (sample_request ?p)) = Inr \<lparr>sub = Some ''u1''\<rparr>"
    by (rule authHttp_sample)
  have ne: "\<not> payload_empty ?p" by (simp add: payload_empty_def)
  have f: "filter (passes no_convert) (records ?p)
             = [sample_record ''123e4567-e89b-42d3-a456-426614174000'']"
    by (simp add: records_def passes_sample passes_A)
  have v: "validate_loop no_convert (records ?p) [] = [sample_event]"
    by (simp add: records_def validate_sample validate_A)
  have d: "\<not> upserts_succeed upsert_down_io"
    by (simp add: upserts_succeed_def upsert_down_io_def WINDOW_SIZES_def)
  obtain r s' where eq: "handleEvents upsert_down_io 1700000000000 [sample_event] init_server = (r, s')"
    by (cases "handleEvents upsert_down_io 1700000000000 [sample_event] init_server")
  have r: "r = Inl PersistenceError"
    using handleEvents_upsert_failure(1) [OF _ d, of "[sample_event]" 1700000000000 init_server] eq
    by simp
  have i: "fst (ingest no_convert upsert_down_io 1700000000000 ?p init_server) = Inl PersistenceError"
    using ingest_valid [OF ne, of no_convert upsert_down_io 1700000000000 init_server] f v eq r
    by simp
  have n: "length (records ?p) = 2" by (simp add: records_def)
  show ?thesis
    using a n f i by (simp add: post_ingest_def sample_request_def)
qed

subsection \<open>The single-event flow\<close>

lemma delta_payload_fresh:
  assumes "\<forall>w \<in> set WINDOW_SIZES. memoryWindows s w (getBucketStart now w) = None"
  shows "delta_payload s now [sample_event]
           = [(''1s'', \<lparr>s_count = 1, s_uniques = 1, s_routes = [(''/'', 1)], s_errors = 0\<rparr>),
              (''5s'', \<lparr>s_count = 1, s_uniques = 1, s_routes = [(''/'', 1)], s_errors = 0\<rparr>),
              (''60s'', \<lparr>s_count = 1, s_uniques = 1, s_routes = [(''/'', 1)], s_errors = 0\<rparr>)]"
proof -
  have a: "active_entry s w (getBucketStart now w) = new_entry" if "w \<in> set WINDOW_SIZES" for w
    using assms that by (simp add: active_entry_def)
  have e: "serializeEntry (foldl add_event new_entry [sample_event])
             = \<lparr>s_count = 1, s_uniques = 1, s_routes = [(''/'', 1)], s_errors = 0\<rparr>"
    by (simp add: serializeEntry_def add_event_def new_entry_def sample_event_def routes_get_def
        set_add_def sort_desc_def Let_def)
  show ?thesis
    using a [of 1] a [of 5] a [of 60] e
    by (simp add: delta_payload_def WINDOW_SIZES_def window_keys)
qed

text \<open>
  C1 (as amended). Let a request that passes \<^verbatim>\<open>authHttp\<close> carry the one-event batch of the
  scenario with a version-4 UUID as its \<^verbatim>\<open>eventId\<close>, at receipt time 1700000000000, on a
  server whose three active buckets are still absent, with no aggregate upsert rejected.
  Then the answer is \<^verbatim>\<open>{accepted: 1}\<close> and every receiver of the topic is sent one delta
  whose windows "1s", "5s" and "60s" each have count 1, uniques 1, routes [["/", 1]] and
  errors 0. An event passes validation only with an \<^verbatim>\<open>eventId\<close> in the format of a
  version-4 UUID; the string "A" is not one.
\<close>

theorem single_event_flow:
  assumes "authHttp lib var (authorization req) = Inr decoded"
      and "body req = Some (JArr [sample_record ''123e4567-e89b-42d3-a456-426614174000''])"
      and "upserts_succeed w_io"
      and "\<forall>w \<in> set WINDOW_SIZES. memoryWindows s w (getBucketStart 1700000000000 w) = None"
  shows "fst (post_ingest lib var cv w_io 1700000000000 req s)
           = Inr (200, JObj [(''accepted'', JNum 1)])
       \<and> wire (snd (post_ingest lib var cv w_io 1700000000000 req s))
           = wire s @ map (\<lambda>ws. (ws, agg_delta
               [(''1s'', \<lparr>s_count = 1, s_uniques = 1, s_routes = [(''/'', 1)], s_errors = 0\<rparr>),
                (''5s'', \<lparr>s_count = 1, s_uniques = 1, s_routes = [(''/'', 1)], s_errors = 0\<rparr>),
                (''60s'', \<lparr>s_count = 1, s_uniques = 1, s_routes = [(''/'', 1)], s_errors = 0\<rparr>)]))
               (receivers w_io s ''dashboard:global'')
       \<and> (eventSchema_validate cv obj = Some e \<longrightarrow> joi_guid_uuidv4 (eventId e))
       \<and> \<not> joi_guid_uuidv4 ''A''"
proof -
  let ?p = "Some (JArr [sample_record ''123e4567-e89b-42d3-a456-426614174000''])"
  have ne: "\<not> payload_empty ?p" by (simp add: payload_empty_def)
  have f: "filter (passes cv) (records ?p) = [sample_record ''123e4567-e89b-42d3-a456-426614174000'']"
    by (simp add: records_def passes_sample)
  have v: "validate_loop cv (records ?p) [] = [sample_event]"
    by (simp add: records_def validate_sample)
  have i: "ingest cv w_io 1700000000000 ?p s
             = (Inr (200, JObj [(''accepted'', JNum 1)]),
                snd (handleEvents w_io 1700000000000 [sample_event] s))"
    using ingest_accepted [OF ne _ assms(3), of cv 1700000000000 s] f v by simp
  have w: "wire (snd (handleEvents w_io 1700000000000 [sample_event] s))
             = wire s @ map (\<lambda>ws. (ws, agg_delta (delta_payload s 1700000000000 [sample_event])))
                          (receivers w_io s ''dashboard:global'')"
    using handleEvents_success(3) [OF _ assms(3), of "[sample_event]" 1700000000000 s] by simp
  show ?thesis
    using i w delta_payload_fresh [OF assms(4)] assms(1,2) validated_ids [of cv obj e] guid_A
    by (simp add: post_ingest_def)
qed

theorem single_event_flow_witness:
  "authHttp toy_jwt None (authorization (sample_request
       (Some (JArr [sample_record ''123e4567-e89b-42d3-a456-426614174000'']))))
     = Inr \<lparr>sub = Some ''u1''\<rparr>
   \<and> upserts_succeed calm_io
   \<and> memoryWindows (subscribe 7 ''dashboard:global'' init_server) 1
        (getBucketStart 1700000000000 1) = None
   \<and> memoryWindows (subscribe 7 ''dashboard:global'' init_server) 5
        (getBucketStart 1700000000000 5) = None
   \<and> memoryWindows (subscribe 7 ''dashboard:global'' init_server) 60
        (getBucketStart 1700000000000 60) = None
   \<and> fst (post_ingest toy_jwt None no_convert calm_io 1700000000000
        (sample_request (Some (JArr [sample_record ''123e4567-e89b-42d3-a456-426614174000''])))
        (subscribe 7 ''dashboard:global'' init_server))
       = Inr (200, JObj [(''accepted'', JNum 1)])
   \<and> wire (snd (post_ingest toy_jwt None no_convert calm_io 1700000000000
        (sample_request (Some (JArr [sample_record ''123e4567-e89b-42d3-a456-426614174000''])))
        (subscribe 7 ''dashboard:global'' init_server)))
       = [(7, agg_delta
            [(''1s'', \<lparr>s_count = 1, s_uniques = 1, s_routes = [(''/'', 1)], s_errors = 0\<rparr>),
             (''5s'', \<lparr>s_count = 1, s_uniques = 1, s_routes = [(''/'', 1)], s_errors = 0\<rparr>),
             (''60s'', \<lparr>s_count = 1, s_uniques = 1, s_routes = [(''/'', 1)], s_errors = 0\<rparr>)])]
   \<and> eventSchema_validate no_convert
        (withDefaults (sample_record ''123e4567-e89b-42d3-a456-426614174000'')) = Some sample_event
   \<and> joi_guid_uuidv4 (eventId sample_event)"
proof -
  let ?s = "subscribe 7 ''dashboard:global'' init_server"
  let ?r = "sample_request (Some (JArr [sample_record ''123e4567-e89b-42d3-a456-426614174000'']))"
  have h1: "authHttp toy_jwt None (authorization ?r) = Inr \<lparr>sub = Some ''u1''\<rparr>"
    by (rule authHttp_sample)
  have h2: "body ?r = Some (JArr [sample_record ''123e4567-e89b-42d3-a456-426614174000''])"
    by (simp add: sample_request_def)
  have h3: "upserts_succeed calm_io"
    by (simp add: upserts_succeed_def calm_io_def WINDOW_SIZES_def)
  have h4: "\<forall>w \<in> set WINDOW_SIZES. memoryWindows ?s w (getBucketStart 1700000000000 w) = None"
    by (simp add: subscribe_def init_server_def Let_def)
  have rc: "receivers calm_io ?s ''dashboard:global'' = [7]"
    by (simp add: receivers_def subscribe_def init_server_def set_add_def can_send_def calm_io_def)
  have w0: "wire ?s = []"
    by (simp add: subscribe_def init_server_def Let_def)
  have v: "eventSchema_validate no_convert
        (withDefaults (sample_record ''123e4567-e89b-42d3-a456-426614174000'')) = Some sample_event"
    by (rule validate_sample)
  have k: "memoryWindows ?s 1 (getBucketStart 1700000000000 1) = None"
      "memoryWindows ?s 5 (getBucketStart 1700000000000 5) = None"
      "memoryWindows ?s 60 (getBucketStart 1700000000000 60) = None"
    by (simp_all add: subscribe_def init_server_def Let_def)
  show ?thesis
    using h1 h3 k rc w0 v
      single_event_flow [OF h1 h2 h3 h4, of no_convert
        "withDefaults (sample_record ''123e4567-e89b-42d3-a456-426614174000'')" sample_event]
    by simp
qed

theorem single_event_flow_counterexample:
  "post_ingest toy_jwt None no_convert calm_io 1700000000000
     (sample_request (Some (JArr [sample_record ''A'']))) init_server
     = (Inr (400, JObj [(''error'', JStr ''no valid events'')]), init_server)
   \<and> fst (post_ingest toy_jwt None no_convert calm_io 1700000000000
        (sample_request (Some (JArr [sample_record ''A'']))) init_server)
       \<noteq> Inr (200, JObj [(''accepted'', JNum 1)])"
proof -
  have "ingest no_convert calm_io 1700000000000 (Some (JArr [sample_record ''A''])) init_server
          = (Inr (400, JObj [(''error'', JStr ''no valid events'')]), init_server)"
    by (simp add: ingest_def validate_A)
  then show ?thesis
    using authHttp_sample [of "Some (JArr [sample_record ''A''])"]
    by (simp add: post_ingest_def sample_request_def)
qed

section \<open>Properties of authentication\<close>

lemma authWsFromReq_spec:
  "authWsFromReq lib var req = spec_identity lib var (ws_authorization req) (url_token req)"
  by (auto simp: authWsFromReq_def spec_identity_def spec_credential_def Let_def
      split: option.splits)

lemma authHttp_bearer:
  "authHttp lib var h =
     (case bearer_credential h of
        None \<Rightarrow> Inl (401, JObj [(''error'', JStr ''missing token'')])
      | Some t \<Rightarrow>
          (case jwt_verify lib t (JWT_SECRET var) of
             None \<Rightarrow> Inl (401, JObj [(''error'', JStr ''invalid token'')])
           | Some decoded \<Rightarrow> Inr decoded))"
  by (auto simp: authHttp_def bearer_credential_def Let_def split: option.splits)

lemma wss_connection_reject:
  "authWsFromReq lib var req = None \<Longrightarrow>
   wss_connection lib var ws req s = (Some (1008, ''unauthorized''), s)"
  by (simp add: wss_connection_def)

lemma ws_message_no_session:
  "sessions s ws = None \<Longrightarrow> ws_message cv mx w_io now ws d s = (Inr (), s)"
  by (simp add: ws_message_def)

text \<open>
  C3 (as amended). On the streaming transport the identity is the one the specification's
  order of resolution gives: the \<^verbatim>\<open>Bearer\<close> header, then a non-prefixed header value,
  then the \<^verbatim>\<open>token\<close> query parameter, verified against the secret. A connection
  without identity is closed with code 1008 and leaves the server as it was: it gets no
  session, and a socket without session has no message handler, so it cannot subscribe.
  On the request transport only the \<^verbatim>\<open>Bearer\<close> header is read: without one the answer
  is 401 "missing token", with one that does not verify 401 "invalid token", and the
  route then answers just that and leaves the server as it was.
\<close>

theorem credential_resolution:
  "authWsFromReq lib var req = spec_identity lib var (ws_authorization req) (url_token req)
   \<and> (authWsFromReq lib var req = None \<longrightarrow>
        wss_connection lib var ws req s = (Some (1008, ''unauthorized''), s))
   \<and> (sessions s ws = None \<longrightarrow> ws_message cv mx w_io now ws d s = (Inr (), s))
   \<and> authHttp lib var h =
       (case bearer_credential h of
          None \<Rightarrow> Inl (401, JObj [(''error'', JStr ''missing token'')])
        | Some t \<Rightarrow>
            (case jwt_verify lib t (JWT_SECRET var) of
               None \<Rightarrow> Inl (401, JObj [(''error'', JStr ''invalid token'')])
             | Some decoded \<Rightarrow> Inr decoded))
   \<and> (authHttp lib var (authorization hreq) = Inl resp \<longrightarrow>
        post_ingest lib var cv w_io now hreq s = (Inr resp, s))"
  using authWsFromReq_spec [of lib var req] wss_connection_reject [of lib var req ws s]
    ws_message_no_session [of s ws cv mx w_io now d] authHttp_bearer [of lib var h]
  by (simp add: post_ingest_def)

theorem credential_resolution_counterexample:
  "spec_identity toy_jwt None (Some ''change_me:u1'') None = Some \<lparr>sub = Some ''u1''\<rparr>
   \<and> authHttp toy_jwt None (Some ''change_me:u1'') = Inl (401, JObj [(''error'', JStr ''missing token'')])
   \<and> spec_identity toy_jwt None None (Some ''change_me:u1'') = Some \<lparr>sub = Some ''u1''\<rparr>
   \<and> authHttp toy_jwt None None = Inl (401, JObj [(''error'', JStr ''missing token'')])"
  by (simp add: spec_identity_def spec_credential_def authHttp_def toy_jwt_def JWT_SECRET_def)

theorem credential_resolution_witness:
  "authWsFromReq toy_jwt None \<lparr>ws_authorization = Some ''bad'', url_token = Some ''change_me:u1''\<rparr> = None
   \<and> wss_connection toy_jwt None 7 \<lparr>ws_authorization = Some ''bad'', url_token = Some ''change_me:u1''\<rparr>
        init_server = (Some (1008, ''unauthorized''), init_server)
   \<and> sessions init_server 7 = None
   \<and> ws_message no_convert 32768 calm_io 1700000000000 7
        (Text 46 (Some (JObj [(''type'', JStr ''subscribe''), (''topic'', JStr ''dashboard:global'')])))
        init_server = (Inr (), init_server)
   \<and> authHttp toy_jwt None (authorization \<lparr>authorization = Some ''change_me:u1'', body = None\<rparr>)
       = Inl (401, JObj [(''error'', JStr ''missing token'')])
   \<and> post_ingest toy_jwt None no_convert calm_io 1700000000000
        \<lparr>authorization = Some ''change_me:u1'', body = None\<rparr> init_server
       = (Inr (401, JObj [(''error'', JStr ''missing token'')]), init_server)"
proof -
  let ?req = "\<lparr>ws_authorization = Some ''bad'', url_token = Some ''change_me:u1''\<rparr>"
  let ?hreq = "\<lparr>authorization = Some ''change_me:u1'', body = None\<rparr>"
  have h1: "authWsFromReq toy_jwt None ?req = None"
    by (simp add: authWsFromReq_def toy_jwt_def JWT_SECRET_def)
  have h2: "sessions init_server 7 = None"
    by (simp add: init_server_def)
  have h3: "authHttp toy_jwt None (authorization ?hreq)
              = Inl (401, JObj [(''error'', JStr ''missing token'')])"
    by (simp add: authHttp_def)
  show ?thesis
    using h1 h2 h3
      credential_resolution [of toy_jwt None ?req 7 init_server no_convert 32768 calm_io
        1700000000000
        "Text 46 (Some (JObj [(''type'', JStr ''subscribe''), (''topic'', JStr ''dashboard:global'')]))"
        "Some ''change_me:u1''" ?hreq "(401, JObj [(''error'', JStr ''missing token'')])"]
    by simp
qed

text \<open>
  C10. With \<^verbatim>\<open>JWT_SECRET\<close> unset the secret is the literal "change_me": \<^verbatim>\<open>GET /token\<close>
  signs with it, and a token that verifies against it (signed with it and not expired, by
  the contract of the token library) authenticates on the request transport as a
  \<^verbatim>\<open>Bearer\<close> header and on the streaming transport as a \<^verbatim>\<open>Bearer\<close> header, as a bare
  header value or as the \<^verbatim>\<open>token\<close> query parameter, where the connection is not closed.
\<close>

theorem default_secret:
  assumes "jwt_verify lib token ''change_me'' = Some decoded" and "token \<noteq> []"
  shows "JWT_SECRET None = ''change_me''
       \<and> get_token lib None q
           = (200, JObj [(''token'', JStr (jwt_sign lib
                \<lparr>sub = Some (case q of None \<Rightarrow> ''demo-user''
                                | Some x \<Rightarrow> if x = [] then ''demo-user'' else x)\<rparr>
                ''change_me'' ''12h''))])
       \<and> authHttp lib None (Some (''Bearer '' @ token)) = Inr decoded
       \<and> authWsFromReq lib None \<lparr>ws_authorization = Some (''Bearer '' @ token), url_token = q'\<rparr>
           = Some decoded
       \<and> (\<not> prefix ''Bearer '' token \<longrightarrow>
            authWsFromReq lib None \<lparr>ws_authorization = Some token, url_token = q'\<rparr> = Some decoded)
       \<and> authWsFromReq lib None \<lparr>ws_authorization = None, url_token = Some token\<rparr> = Some decoded
       \<and> fst (wss_connection lib None ws \<lparr>ws_authorization = None, url_token = Some token\<rparr> s) = None"
  using assms
  by (simp add: JWT_SECRET_def get_token_def authHttp_def authWsFromReq_def wss_connection_def
      Let_def)

theorem default_secret_witness:
  "jwt_sign toy_jwt \<lparr>sub = Some ''demo-user''\<rparr> ''change_me'' ''12h'' = ''change_me:demo-user''
   \<and> jwt_verify toy_jwt ''change_me:demo-user'' ''change_me'' = Some \<lparr>sub = Some ''demo-user''\<rparr>
   \<and> ''change_me:demo-user'' \<noteq> []
   \<and> \<not> prefix ''Bearer '' ''change_me:demo-user''
   \<and> get_token toy_jwt None None = (200, JObj [(''token'', JStr ''change_me:demo-user'')])
   \<and> authHttp toy_jwt None (Some ''Bearer change_me:demo-user'') = Inr \<lparr>sub = Some ''demo-user''\<rparr>
   \<and> authWsFromReq toy_jwt None \<lparr>ws_authorization = Some ''change_me:demo-user'', url_token = None\<rparr>
       = Some \<lparr>sub = Some ''demo-user''\<rparr>
   \<and> authWsFromReq toy_jwt None \<lparr>ws_authorization = None, url_token = Some ''change_me:demo-user''\<rparr>
       = Some \<lparr>sub = Some ''demo-user''\<rparr>"
proof -
  have s: "jwt_sign toy_jwt \<lparr>sub = Some ''demo-user''\<rparr> ''change_me'' ''12h'' = ''change_me:demo-user''"
    by (simp add: toy_jwt_def)
  have h1: "jwt_verify toy_jwt ''change_me:demo-user'' ''change_me'' = Some \<lparr>sub = Some ''demo-user''\<rparr>"
    by (simp add: toy_jwt_def)
  have h2: "''change_me:demo-user'' \<noteq> []" by simp
  have h3: "\<not> prefix ''Bearer '' ''change_me:demo-user''" by simp
  show ?thesis
    using s h1 h2 h3 default_secret [OF h1 h2, of None None 7 init_server]
    by simp
qed

end
